theory Spec2Isabelle
  imports Complex_Main "HOL-Library.Sublist" "HOL-Library.Multiset"
begin

section \<open>JavaScript values\<close>

text \<open>
  The program is JavaScript (src/processFounders.js). Values that reach it from the
  network are parsed JSON; the program tests them for truthiness, reads properties of
  them and tells \<open>null\<close> from \<open>undefined\<close>, so both are values of the model.
  Numbers are the integral JSON numbers: every test the program makes on a number
  (truthiness, \<open>=== 0\<close>) treats a fractional number as it treats any non-zero integer.
  An object is the list of its own properties in source order; a repeated key takes its
  last value, as \<open>JSON.parse\<close> gives it.
\<close>

datatype jsval =
    JUndefined
  | JNull
  | JBool bool
  | JNum int
  | JStr string
  | JArr "jsval list"
  | JObj "(string \<times> jsval) list"

text \<open>A thrown value: an \<open>Error\<close> (also what a rejected request carries), a
  \<open>TypeError\<close> or a \<open>SyntaxError\<close>, each with its message.\<close>

datatype js_error = Error string | TypeError string | SyntaxError string

fun message :: "js_error \<Rightarrow> string" where
  "message (Error m) = m"
| "message (TypeError m) = m"
| "message (SyntaxError m) = m"

fun truthy :: "jsval \<Rightarrow> bool" where
  "truthy JUndefined = False"
| "truthy JNull = False"
| "truthy (JBool b) = b"
| "truthy (JNum n) = (n \<noteq> 0)"
| "truthy (JStr s) = (s \<noteq> [])"
| "truthy (JArr xs) = True"
| "truthy (JObj kvs) = True"

text \<open>
  \<open>v.k\<close> for a key \<open>k\<close> that no built-in prototype defines (the program reads
  \<open>general\<close>, \<open>results_cnt\<close>, \<open>organic\<close>, \<open>url\<close>, \<open>biography\<close>, \<open>status\<close>,
  \<open>snapshot_id\<close>, \<open>role\<close>, \<open>rank\<close>, \<open>confidence_reason\<close> this way): reading a
  property of \<open>null\<close> or \<open>undefined\<close> throws, a primitive or an array has no such
  property, an object gives its own property or \<open>undefined\<close>.
\<close>

definition js_get :: "jsval \<Rightarrow> string \<Rightarrow> js_error + jsval" where
  "js_get v k =
     (case v of
        JUndefined \<Rightarrow> Inl (TypeError (''Cannot read properties of undefined (reading '' @ k @ '')''))
      | JNull \<Rightarrow> Inl (TypeError (''Cannot read properties of null (reading '' @ k @ '')''))
      | JObj kvs \<Rightarrow> Inr (case map_of (rev kvs) k of None \<Rightarrow> JUndefined | Some x \<Rightarrow> x)
      | _ \<Rightarrow> Inr JUndefined)"

section \<open>Result Extractor\<close>

subsection \<open>extractHandle (lines 189-193)\<close>

text \<open>
  \<open>url.match(/x\.com\/([^/?]+)/)\<close>: the leftmost position at which \<open>x.com/\<close> is
  followed by at least one character other than \<open>/\<close> and \<open>?\<close>; the group is the
  longest run of such characters there.
\<close>

definition handle_char :: "char \<Rightarrow> bool" where
  "handle_char c = (c \<noteq> CHR ''/'' \<and> c \<noteq> CHR ''?'')"

fun regex_match :: "string \<Rightarrow> string option" where
  "regex_match [] = None"
| "regex_match (c # cs) =
     (if prefix ''x.com/'' (c # cs) \<and> takeWhile handle_char (drop 6 (c # cs)) \<noteq> []
      then Some (takeWhile handle_char (drop 6 (c # cs)))
      else regex_match cs)"

text \<open>A truthy argument that is not a string has no \<open>match\<close> method: the call throws.\<close>

definition extractHandle :: "jsval \<Rightarrow> js_error + jsval" where
  "extractHandle url =
     (if \<not> truthy url then Inr JNull
      else
        (case url of
           JStr s \<Rightarrow> Inr (case regex_match s of Some h \<Rightarrow> JStr h | None \<Rightarrow> JNull)
         | _ \<Rightarrow> Inl (TypeError ''url.match is not a function'')))"

subsection \<open>extractMainProfileLink (lines 172-186)\<close>

text \<open>What the program reads of a parsed \<open>URL\<close>: its path and its query parameters.\<close>

record URL =
  pathname :: string
  searchParams :: "(string \<times> string) list"

text \<open>\<open>s.split(sep)\<close> for a one-character separator.\<close>

fun split_on :: "char \<Rightarrow> string \<Rightarrow> string list" where
  "split_on sep [] = [[]]"
| "split_on sep (c # cs) =
     (if c = sep then [] # split_on sep cs
      else case split_on sep cs of [] \<Rightarrow> [[c]] | p # ps \<Rightarrow> (c # p) # ps)"

fun join :: "string \<Rightarrow> string list \<Rightarrow> string" where
  "join sep [] = []"
| "join sep [p] = p"
| "join sep (p # q # ps) = p @ sep @ join sep (q # ps)"

text \<open>
  \<open>url.searchParams.toString()\<close>: the pairs as \<open>name=value\<close>, joined by \<open>&\<close>. The
  percent-encoding of names and values is left out; it does not change whether the
  result is the empty string, which is all the program asks.
\<close>

definition searchParams_toString :: "(string \<times> string) list \<Rightarrow> string" where
  "searchParams_toString ps = join ''&'' (map (\<lambda>(k, v). k @ ''='' @ v) ps)"

text \<open>
  The callback of \<open>links.find\<close>. The \<open>URL\<close> constructor is the platform's; it is a
  parameter here (\<open>None\<close> when it throws), so that what is proved of the program holds
  for the real parser.
\<close>

definition mainProfile_test :: "(jsval \<Rightarrow> URL option) \<Rightarrow> jsval \<Rightarrow> bool" where
  "mainProfile_test new_URL link =
     (case new_URL link of
        None \<Rightarrow> False
      | Some url \<Rightarrow>
          length (filter (\<lambda>p. p \<noteq> []) (split_on CHR ''/'' (pathname url))) = 1
          \<and> searchParams_toString (searchParams url) = [])"

text \<open>\<open>find\<close> gives \<open>undefined\<close> when no element passes; the guard gives \<open>null\<close>.\<close>

definition extractMainProfileLink :: "(jsval \<Rightarrow> URL option) \<Rightarrow> jsval \<Rightarrow> jsval" where
  "extractMainProfileLink new_URL links =
     (if \<not> truthy links then JNull
      else
        (case links of
           JArr ls \<Rightarrow> (case find (mainProfile_test new_URL) ls of None \<Rightarrow> JUndefined | Some l \<Rightarrow> l)
         | _ \<Rightarrow> JNull))"

subsection \<open>The URL constructor on plain http(s) URLs\<close>

text \<open>
  Modelled from the WHATWG URL standard, for the examples: absolute URLs
  \<open>http(s)://host/path?query#fragment\<close> whose host is lower-case letters in dot-separated
  labels and whose path, query and fragment hold only letters, digits, \<open>_\<close> and \<open>-\<close>
  (and \<open>/\<close> in the path, \<open>=\<close> and \<open>&\<close> in the query). On these the parser normalises
  nothing: the path is the text up to \<open>?\<close> or \<open>#\<close> (\<open>/\<close> when empty) and the query
  parameters are the non-empty \<open>&\<close>-separated pieces, each split at its first \<open>=\<close>.
  Every other argument is outside this fragment and is reported as \<open>None\<close>.
\<close>

definition lower_char :: "char \<Rightarrow> bool" where
  "lower_char c = (c \<in> set ''abcdefghijklmnopqrstuvwxyz'')"

definition plain_char :: "char \<Rightarrow> bool" where
  "plain_char c =
     (c \<in> set ''abcdefghijklmnopqrstuvwxyzABCDEFGHIJKLMNOPQRSTUVWXYZ0123456789_-'')"

definition parse_query :: "string \<Rightarrow> (string \<times> string) list" where
  "parse_query q =
     map (\<lambda>p. (takeWhile (\<lambda>c. c \<noteq> CHR ''='') p, drop 1 (dropWhile (\<lambda>c. c \<noteq> CHR ''='') p)))
       (filter (\<lambda>p. p \<noteq> []) (split_on CHR ''&'' q))"

definition URL_parse :: "string \<Rightarrow> URL option" where
  "URL_parse s =
     (case (if prefix ''https://'' s then Some (drop 8 s)
            else if prefix ''http://'' s then Some (drop 7 s) else None) of
        None \<Rightarrow> None
      | Some r \<Rightarrow>
          (let nofrag = takeWhile (\<lambda>c. c \<noteq> CHR ''#'') r;
               frag = drop 1 (dropWhile (\<lambda>c. c \<noteq> CHR ''#'') r);
               front = takeWhile (\<lambda>c. c \<noteq> CHR ''?'') nofrag;
               query = drop 1 (dropWhile (\<lambda>c. c \<noteq> CHR ''?'') nofrag);
               host = takeWhile (\<lambda>c. c \<noteq> CHR ''/'') front;
               path = dropWhile (\<lambda>c. c \<noteq> CHR ''/'') front
           in if list_all (\<lambda>l. l \<noteq> [] \<and> list_all lower_char l) (split_on CHR ''.'' host)
                 \<and> list_all (\<lambda>c. plain_char c \<or> c = CHR ''/'') path
                 \<and> list_all (\<lambda>c. plain_char c \<or> c = CHR ''='' \<or> c = CHR ''&'') query
                 \<and> list_all plain_char frag
              then Some \<lparr>pathname = (if path = [] then ''/'' else path),
                         searchParams = parse_query query\<rparr>
              else None))"

definition plain_URL :: "jsval \<Rightarrow> URL option" where
  "plain_URL v = (case v of JStr s \<Rightarrow> URL_parse s | _ \<Rightarrow> None)"

section \<open>Retrying Fetcher (lines 70-149)\<close>

text \<open>
  A response body is JSON text. The model names a text by the value \<open>JSON.parse\<close>
  makes of it; \<open>Malformed\<close> is any text on which \<open>JSON.parse\<close> throws.
\<close>

datatype json_text = Text_of jsval | Malformed

text \<open>One request through the proxy: it is rejected (network failure, timeout, an
  error status), or it resolves with the body.\<close>

datatype http_outcome = Rejected string | Responded json_text

record retry_config =
  maxRetries :: int
  initialDelay :: rat
  maxDelay :: rat
  backoffFactor :: rat

definition RETRY_CONFIG :: retry_config where
  "RETRY_CONFIG = \<lparr>maxRetries = 5, initialDelay = 2000, maxDelay = 30000, backoffFactor = 3 / 2\<rparr>"

text \<open>\<open>jsonData && jsonData.general && jsonData.general.results_cnt === 0\<close>\<close>

definition zero_results :: "jsval \<Rightarrow> bool" where
  "zero_results jsonData =
     (truthy jsonData \<and>
      (case js_get jsonData ''general'' of
         Inl e \<Rightarrow> False
       | Inr general \<Rightarrow> truthy general \<and> js_get general ''results_cnt'' = Inr (JNum 0)))"

text \<open>\<open>jsonData && jsonData.organic\<close>\<close>

definition has_organic :: "jsval \<Rightarrow> bool" where
  "has_organic jsonData =
     (truthy jsonData \<and>
      (case js_get jsonData ''organic'' of Inl e \<Rightarrow> False | Inr organic \<Rightarrow> truthy organic))"

text \<open>The body of the \<open>try\<close> of one attempt: every \<open>throw\<close> is an \<open>Inl\<close>.\<close>

definition attempt_try :: "http_outcome \<Rightarrow> js_error + jsval" where
  "attempt_try outcome =
     (case outcome of
        Rejected m \<Rightarrow> Inl (Error m)
      | Responded Malformed \<Rightarrow> Inl (SyntaxError ''Unexpected token in JSON'')
      | Responded (Text_of jsonData) \<Rightarrow>
          if zero_results jsonData then Inr (JObj [(''organic'', JArr [])])
          else if has_organic jsonData then Inr jsonData
          else Inl (Error ''Response missing organic results''))"

text \<open>
  \<open>request url attempt\<close> is what the request of the given attempt meets. The function
  makes one request per call and waits once before each recursive call. Beside the
  returned value, the model records the number of requests made and the delays waited
  (in milliseconds, in order). The delay is computed in floating point by the program;
  the model computes it exactly, and the two agree on every attempt a call from
  attempt 1 makes (2000, 3000, 4500, 6750).
\<close>

record fetch_run =
  returned :: jsval
  requests :: nat
  delays :: "rat list"

definition retry_delay :: "int \<Rightarrow> rat" where
  "retry_delay attempt =
     min (initialDelay RETRY_CONFIG * backoffFactor RETRY_CONFIG powi (attempt - 1))
         (maxDelay RETRY_CONFIG)"

function fetchWithRetry :: "(string \<Rightarrow> int \<Rightarrow> http_outcome) \<Rightarrow> string \<Rightarrow> int \<Rightarrow> fetch_run" where
  "fetchWithRetry request url attempt =
     (case attempt_try (request url attempt) of
        Inr data \<Rightarrow> \<lparr>returned = data, requests = 1, delays = []\<rparr>
      | Inl error \<Rightarrow>
          if attempt \<ge> maxRetries RETRY_CONFIG
          then \<lparr>returned = JNull, requests = 1, delays = []\<rparr>
          else
            let delay = retry_delay attempt;
                rest = fetchWithRetry request url (attempt + 1)
            in \<lparr>returned = returned rest, requests = requests rest + 1,
                delays = delay # delays rest\<rparr>)"
  by pat_completeness auto
termination
  by (relation "measure (\<lambda>(request, url, attempt). nat (maxRetries RETRY_CONFIG - attempt))")
     (auto simp: RETRY_CONFIG_def)

declare fetchWithRetry.simps [simp del]

section \<open>processSearchResults (lines 152-169)\<close>

text \<open>
  The callback \<open>item => item.link && item.link.includes('x.com')\<close>, as the truth value
  \<open>filter\<close> takes of it. Reading \<open>link\<close> of \<open>null\<close> throws; a string has the built-in
  method \<open>link\<close> (a function, which has no \<open>includes\<close>); a string link is searched
  for the substring, an array link for the element; every other truthy link has no
  \<open>includes\<close> method.
\<close>

definition x_link_test :: "jsval \<Rightarrow> js_error + bool" where
  "x_link_test item =
     (case item of
        JUndefined \<Rightarrow> Inl (TypeError ''Cannot read properties of undefined (reading link)'')
      | JNull \<Rightarrow> Inl (TypeError ''Cannot read properties of null (reading link)'')
      | JStr s \<Rightarrow> Inl (TypeError ''item.link.includes is not a function'')
      | JObj kvs \<Rightarrow>
          (case map_of (rev kvs) ''link'' of
             None \<Rightarrow> Inr False
           | Some link \<Rightarrow>
               if \<not> truthy link then Inr False
               else (case link of
                       JStr s \<Rightarrow> Inr (sublist ''x.com'' s)
                     | JArr xs \<Rightarrow> Inr (JStr ''x.com'' \<in> set xs)
                     | _ \<Rightarrow> Inl (TypeError ''item.link.includes is not a function'')))
      | _ \<Rightarrow> Inr False)"

fun filter_items :: "jsval list \<Rightarrow> js_error + jsval list" where
  "filter_items [] = Inr []"
| "filter_items (item # items) =
     (case x_link_test item of
        Inl e \<Rightarrow> Inl e
      | Inr keep \<Rightarrow>
          (case filter_items items of
             Inl e \<Rightarrow> Inl e
           | Inr kept \<Rightarrow> Inr (if keep then item # kept else kept)))"

text \<open>\<open>item.link\<close> of an item that passed the filter (an object).\<close>

definition link_of :: "jsval \<Rightarrow> jsval" where
  "link_of item = (case js_get item ''link'' of Inl e \<Rightarrow> JUndefined | Inr l \<Rightarrow> l)"

text \<open>The names passed for logging are left out. A truthy \<open>organic\<close> that is not an
  array has no \<open>filter\<close> method.\<close>

definition processSearchResults :: "jsval \<Rightarrow> js_error + jsval" where
  "processSearchResults data =
     (if \<not> truthy data then Inr JNull
      else
        (case js_get data ''organic'' of
           Inl e \<Rightarrow> Inl e
         | Inr organic \<Rightarrow>
             if \<not> truthy organic then Inr JNull
             else
               (case organic of
                  JArr items \<Rightarrow>
                    (case filter_items items of
                       Inl e \<Rightarrow> Inl e
                     | Inr kept \<Rightarrow>
                         let x_links = map link_of kept
                         in if length x_links = 0 then Inr JNull else Inr (JArr x_links))
                | _ \<Rightarrow> Inl (TypeError ''data.organic.filter is not a function''))))"

section \<open>Snapshot Poller: getProfileDescription (lines 196-312)\<close>

text \<open>The object the poller makes for a handle (fields \<open>status\<close>, \<open>canDm\<close>,
  \<open>description\<close>, \<open>reason\<close>).\<close>

record ProfileData =
  p_status :: string
  canDm :: bool
  p_description :: jsval
  p_reason :: string

text \<open>
  \<open>profileMap\<close> is a plain object \<open>{}\<close> used as a dictionary keyed by handle. A plain
  object inherits from \<open>Object.prototype\<close>, and assigning to its key \<open>__proto__\<close>
  replaces its prototype instead of adding a property. The model keeps the own
  properties (latest first) and the prototype, when an assignment has replaced it.
\<close>

record profileMap =
  own :: "(string \<times> ProfileData) list"
  proto :: "ProfileData option"

definition empty_map :: profileMap where
  "empty_map = \<lparr>own = [], proto = None\<rparr>"

text \<open>The function-valued members of \<open>Object.prototype\<close>.\<close>

definition Object_prototype_functions :: "string list" where
  "Object_prototype_functions =
     [''constructor'', ''hasOwnProperty'', ''isPrototypeOf'', ''propertyIsEnumerable'',
      ''toLocaleString'', ''toString'', ''valueOf'', ''__defineGetter__'',
      ''__defineSetter__'', ''__lookupGetter__'', ''__lookupSetter__'']"

text \<open>What \<open>profileMap[handle]\<close> can be, and so what the returned array can hold.\<close>

datatype entry =
    Profile ProfileData
  | InheritedValue jsval
  | BuiltinFunction string
  | ObjectPrototype
  | Absent

definition field_of :: "ProfileData \<Rightarrow> string \<Rightarrow> jsval option" where
  "field_of p k =
     (if k = ''status'' then Some (JStr (p_status p))
      else if k = ''canDm'' then Some (JBool (canDm p))
      else if k = ''description'' then Some (p_description p)
      else if k = ''reason'' then Some (JStr (p_reason p))
      else None)"

text \<open>\<open>profileMap[k]\<close>: own property, then the replaced prototype's fields, then
  \<open>Object.prototype\<close> (whose accessor \<open>__proto__\<close> gives the object's prototype).\<close>

definition map_get :: "profileMap \<Rightarrow> string \<Rightarrow> entry" where
  "map_get m k =
     (case map_of (own m) k of
        Some p \<Rightarrow> Profile p
      | None \<Rightarrow>
          (case (case proto m of None \<Rightarrow> None | Some q \<Rightarrow> field_of q k) of
             Some v \<Rightarrow> InheritedValue v
           | None \<Rightarrow>
               if k = ''__proto__'' then (case proto m of None \<Rightarrow> ObjectPrototype | Some q \<Rightarrow> Profile q)
               else if k \<in> set Object_prototype_functions then BuiltinFunction k
               else Absent))"

text \<open>\<open>profileMap[k] = v\<close>\<close>

definition map_set :: "profileMap \<Rightarrow> string \<Rightarrow> ProfileData \<Rightarrow> profileMap" where
  "map_set m k v = (if k = ''__proto__'' then m\<lparr>proto := Some v\<rparr> else m\<lparr>own := (k, v) # own m\<rparr>)"

fun entry_truthy :: "entry \<Rightarrow> bool" where
  "entry_truthy (Profile p) = True"
| "entry_truthy (InheritedValue v) = truthy v"
| "entry_truthy (BuiltinFunction f) = True"
| "entry_truthy ObjectPrototype = True"
| "entry_truthy Absent = False"

text \<open>For the proofs: every object stored in the map, as a property or as its
  prototype, has \<open>canDm = true\<close>; and the keys that every plain object answers to, or
  that the stored objects have as fields.\<close>

definition map_ok :: "profileMap \<Rightarrow> bool" where
  "map_ok m \<longleftrightarrow> (\<forall>p \<in> snd ` set (own m). canDm p) \<and> (\<forall>q. proto m = Some q \<longrightarrow> canDm q)"

definition reserved_keys :: "string list" where
  "reserved_keys = ''__proto__'' # ''status'' # ''canDm'' # ''description'' # ''reason''
                     # Object_prototype_functions"

text \<open>What an \<open>axios\<close> call does: it is rejected, or resolves with \<open>response.data\<close>.\<close>

datatype axios_outcome = AxiosRejected string | AxiosData jsval

text \<open>The argument: an array of handles, or (the \<open>Array.isArray\<close> test) one handle.\<close>

datatype handles_arg = Many "string list" | One string

fun handlesArray :: "handles_arg \<Rightarrow> string list" where
  "handlesArray (Many hs) = hs"
| "handlesArray (One h) = [h]"

definition maxAttempts :: nat where
  "maxAttempts = 10"

text \<open>
  The loop's test of \<open>finalJSON\<close>: \<open>finalJSON == null || finalJSON.status === "running"\<close>.
  Then the polling loop, from the state \<open>(finalJSON, attempts)\<close>. \<open>get n\<close> is what the
  \<open>n\<close>-th request for the snapshot meets. A request that is rejected, or whose data is
  \<open>null\<close> (reading its \<open>status\<close> throws, after \<open>finalJSON\<close> was assigned), is retried
  unless it was the last attempt, in which case the error is rethrown.
\<close>

definition still_running :: "jsval \<Rightarrow> bool" where
  "still_running finalJSON =
     (finalJSON = JNull \<or> finalJSON = JUndefined
      \<or> js_get finalJSON ''status'' = Inr (JStr ''running''))"

function poll :: "(nat \<Rightarrow> axios_outcome) \<Rightarrow> jsval \<Rightarrow> nat \<Rightarrow> js_error + jsval" where
  "poll get finalJSON attempts =
     (if still_running finalJSON \<and> attempts < maxAttempts
      then
        (case get (attempts + 1) of
           AxiosRejected m \<Rightarrow>
             if attempts + 1 \<ge> maxAttempts then Inl (Error m)
             else poll get finalJSON (attempts + 1)
         | AxiosData d \<Rightarrow>
             (case js_get d ''status'' of
                Inl e \<Rightarrow> if attempts + 1 \<ge> maxAttempts then Inl e else poll get d (attempts + 1)
              | Inr s \<Rightarrow> poll get d (attempts + 1)))
      else Inr finalJSON)"
  by pat_completeness auto
termination
  by (relation "measure (\<lambda>(get, finalJSON, attempts). maxAttempts - attempts)") auto

declare poll.simps [simp del]

text \<open>A poll that leaves the job short of a terminal state: the request is rejected,
  or its data passes the loop's test again.\<close>

definition not_terminal :: "axios_outcome \<Rightarrow> bool" where
  "not_terminal outcome =
     (case outcome of AxiosRejected m \<Rightarrow> True | AxiosData d \<Rightarrow> still_running d)"

text \<open>The \<open>forEach\<close> over the snapshot rows.\<close>

fun build_map :: "jsval list \<Rightarrow> profileMap \<Rightarrow> js_error + profileMap" where
  "build_map [] m = Inr m"
| "build_map (profile # rows) m =
     (case js_get profile ''url'' of
        Inl e \<Rightarrow> Inl e
      | Inr u \<Rightarrow>
          (case extractHandle u of
             Inl e \<Rightarrow> Inl e
           | Inr urlHandle \<Rightarrow>
               (case urlHandle of
                  JStr h \<Rightarrow>
                    if h = [] then build_map rows m
                    else
                      (case js_get profile ''biography'' of
                         Inl e \<Rightarrow> Inl e
                       | Inr b \<Rightarrow>
                           build_map rows
                             (map_set m h
                                \<lparr>p_status = ''success'', canDm = True,
                                 p_description = (if truthy b then b else JStr []),
                                 p_reason = ''DMs are open''\<rparr>))
                | _ \<Rightarrow> build_map rows m)))"

definition not_found :: ProfileData where
  "not_found =
     \<lparr>p_status = ''error'', canDm = True, p_description = JStr [],
      p_reason = ''Profile data not found but assuming DMs are open''\<rparr>"

definition api_error :: "js_error \<Rightarrow> ProfileData" where
  "api_error error =
     \<lparr>p_status = ''error'', canDm = True, p_description = JStr [],
      p_reason = ''API Error: '' @ message error\<rparr>"

text \<open>
  The environment of a batch: the search proxy (by position of the record in the
  batch, URL and attempt), the dataset API (the trigger by the URLs submitted, the
  snapshot by snapshot id and attempt), the chat completion (by position among the
  resolved records and prompt), the \<open>URL\<close> constructor and the clock (the time stamped
  on the \<open>n\<close>-th result of the batch).
\<close>

record services =
  request :: "nat \<Rightarrow> string \<Rightarrow> int \<Rightarrow> http_outcome"
  axios_post :: "string list \<Rightarrow> axios_outcome"
  axios_get :: "jsval \<Rightarrow> nat \<Rightarrow> axios_outcome"
  chat_create :: "nat \<Rightarrow> string \<Rightarrow> http_outcome"
  url_parser :: "jsval \<Rightarrow> URL option"
  now :: "nat \<Rightarrow> string"

text \<open>The URL submitted for a handle; then the body of the \<open>try\<close>.\<close>

definition x_url :: "string \<Rightarrow> string" where
  "x_url handle = ''https://x.com/'' @ handle"

definition getProfileDescription_try :: "services \<Rightarrow> handles_arg \<Rightarrow> js_error + entry list" where
  "getProfileDescription_try w handles =
     (if length (handlesArray handles) = 0 then Inr []
      else
        let urlsToFetch = map x_url (take 20 (handlesArray handles))
        in case axios_post w urlsToFetch of
          AxiosRejected m \<Rightarrow> Inl (Error m)
        | AxiosData data \<Rightarrow>
            (case js_get data ''snapshot_id'' of
               Inl e \<Rightarrow> Inl e
             | Inr snapshotId \<Rightarrow>
                 (case poll (axios_get w snapshotId) JNull 0 of
                    Inl e \<Rightarrow> Inl e
                  | Inr finalJSON \<Rightarrow>
                      if \<not> truthy finalJSON \<or> js_get finalJSON ''status'' = Inr (JStr ''running'')
                      then Inl (Error ''Failed to get profile data after maximum attempts'')
                      else
                        (case (case finalJSON of JArr rows \<Rightarrow> build_map rows empty_map
                                               | _ \<Rightarrow> Inr empty_map) of
                           Inl e \<Rightarrow> Inl e
                         | Inr profileMap \<Rightarrow>
                             Inr (map (\<lambda>handle.
                                    if entry_truthy (map_get profileMap handle)
                                    then map_get profileMap handle
                                    else Profile not_found)
                                  (handlesArray handles))))))"

text \<open>The function: the \<open>catch\<close> turns every error of the body into error entries.\<close>

definition getProfileDescription :: "services \<Rightarrow> handles_arg \<Rightarrow> entry list" where
  "getProfileDescription w handles =
     (case getProfileDescription_try w handles of
        Inr result \<Rightarrow> result
      | Inl error \<Rightarrow>
          (case handles of
             Many hs \<Rightarrow> map (\<lambda>handle. Profile (api_error error)) hs
           | One h \<Rightarrow> [Profile (api_error error)]))"

section \<open>Classifier: analyzeFounderProfile (lines 315-339)\<close>

text \<open>
  \<open>chat\<close> is what the completion request meets for a prompt: a rejection (or a
  completion without the expected fields, which throws as well), or the content of the
  first choice, which is parsed as JSON. Every failure gives \<open>null\<close>. Of the prompt
  the model keeps the three interpolated values; the fixed instruction text is left
  out. The caller passes no \<open>profile_url\<close>, which the template prints as
  \<open>undefined\<close>.
\<close>

definition prompt_for :: "string \<Rightarrow> string \<Rightarrow> string \<Rightarrow> string" where
  "prompt_for handle company profile_url =
     ''Given this person's information: Handle: '' @ handle @ '' Company: '' @ company
       @ '' Twitter URL: '' @ profile_url"

definition analyzeFounderProfile ::
  "(string \<Rightarrow> http_outcome) \<Rightarrow> string \<Rightarrow> string \<Rightarrow> string \<Rightarrow> jsval" where
  "analyzeFounderProfile chat handle company profile_url =
     (case chat (prompt_for handle company profile_url) of
        Rejected m \<Rightarrow> JNull
      | Responded Malformed \<Rightarrow> JNull
      | Responded (Text_of v) \<Rightarrow> v)"

section \<open>Batch Orchestrator: processBatch (lines 342-484)\<close>

record InputRecord =
  founderName :: string
  companyName :: string
  email :: string
  searchQuery :: string

text \<open>
  A result record (fields \<open>name\<close>, \<open>company\<close>, \<open>email\<close>, \<open>handle\<close>, \<open>profile_url\<close>,
  \<open>dm_status\<close>, \<open>description\<close>, \<open>status\<close>, \<open>reason\<close>, \<open>role\<close>, \<open>rank\<close>,
  \<open>confidence_reason\<close>, \<open>processed_at\<close>); a field the object literal does not set
  is \<open>None\<close>.
\<close>

record ResultRecord =
  name :: string
  company :: string
  r_email :: string
  handle :: "string option"
  profile_url :: "jsval option"
  dm_status :: "string option"
  description :: "jsval option"
  status :: string
  reason :: "string option"
  role :: "jsval option"
  rank :: "jsval option"
  confidence_reason :: "jsval option"
  processed_at :: string

text \<open>Where the first loop leaves a record: one of the three early exits, or its
  handle and profile URL, held for the second loop.\<close>

datatype search_outcome =
    NoSearchResults
  | NoProfile
  | NoHandle jsval
  | Pending string jsval

text \<open>The search URL of a record; then the \<open>try\<close> of the first loop for the record
  at position \<open>k\<close>.\<close>

definition search_url :: "InputRecord \<Rightarrow> string" where
  "search_url item = ''https://www.google.com/search?q='' @ searchQuery item @ ''&brd_json=1''"

definition search_item :: "services \<Rightarrow> nat \<Rightarrow> InputRecord \<Rightarrow> js_error + search_outcome" where
  "search_item w k item =
     (let url = search_url item;
          searchData = returned (fetchWithRetry (request w k) url 1)
      in if \<not> truthy searchData then Inr NoSearchResults
         else
           (case processSearchResults searchData of
              Inl e \<Rightarrow> Inl e
            | Inr links \<Rightarrow>
                let mainProfileUrl = extractMainProfileLink (url_parser w) links
                in if \<not> truthy mainProfileUrl then Inr NoProfile
                   else
                     (case extractHandle mainProfileUrl of
                        Inl e \<Rightarrow> Inl e
                      | Inr h \<Rightarrow>
                          (case h of
                             JStr s \<Rightarrow> if s = [] then Inr (NoHandle mainProfileUrl)
                                       else Inr (Pending s mainProfileUrl)
                           | _ \<Rightarrow> Inr (NoHandle mainProfileUrl)))))"

definition early_record ::
  "InputRecord \<Rightarrow> string \<Rightarrow> string \<Rightarrow> jsval option \<Rightarrow> string \<Rightarrow> ResultRecord" where
  "early_record item st why url t =
     \<lparr>name = founderName item, company = companyName item, r_email = email item,
      handle = None, profile_url = url, dm_status = None, description = None,
      status = st, reason = Some why, role = None, rank = None,
      confidence_reason = None, processed_at = t\<rparr>"

text \<open>What the first loop pushes for a record, if anything, at time \<open>t\<close>.\<close>

definition first_loop_record ::
  "InputRecord \<Rightarrow> js_error + search_outcome \<Rightarrow> string \<Rightarrow> ResultRecord option" where
  "first_loop_record item outcome t =
     (case outcome of
        Inr NoSearchResults \<Rightarrow> Some (early_record item ''failed'' ''No search results found'' None t)
      | Inr NoProfile \<Rightarrow> Some (early_record item ''failed'' ''No Twitter profile found'' None t)
      | Inr (NoHandle url) \<Rightarrow>
          Some (early_record item ''failed'' ''Could not extract Twitter handle'' (Some url) t)
      | Inr (Pending h url) \<Rightarrow> None
      | Inl error \<Rightarrow> Some (early_record item ''error'' (message error) None t))"

text \<open>The first loop, from position \<open>k\<close>, on the state \<open>(batchResults, handleItems)\<close>.\<close>

fun first_loop ::
  "services \<Rightarrow> nat \<Rightarrow> InputRecord list
     \<Rightarrow> ResultRecord list \<times> (InputRecord \<times> string \<times> jsval) list
     \<Rightarrow> ResultRecord list \<times> (InputRecord \<times> string \<times> jsval) list" where
  "first_loop w k [] state = state"
| "first_loop w k (item # items) (batchResults, handleItems) =
     first_loop w (Suc k) items
       (case search_item w k item of
          Inr (Pending h url) \<Rightarrow> (batchResults, handleItems @ [(item, h, url)])
        | outcome \<Rightarrow>
            (case first_loop_record item outcome (now w (length batchResults)) of
               Some r \<Rightarrow> (batchResults @ [r], handleItems)
             | None \<Rightarrow> (batchResults, handleItems)))"

text \<open>\<open>profileData.description\<close>, of the array element at index \<open>i\<close>; an index past
  the end gives \<open>undefined\<close>, whose property cannot be read; a built-in function and
  \<open>Object.prototype\<close> have no such property.\<close>

definition description_at :: "entry list \<Rightarrow> nat \<Rightarrow> js_error + jsval" where
  "description_at profileDataArray i =
     (if i < length profileDataArray
      then (case profileDataArray ! i of
              Profile p \<Rightarrow> Inr (p_description p)
            | InheritedValue v \<Rightarrow> js_get v ''description''
            | Absent \<Rightarrow> Inl (TypeError ''Cannot read properties of undefined (reading description)'')
            | _ \<Rightarrow> Inr JUndefined)
      else Inl (TypeError ''Cannot read properties of undefined (reading description)''))"

text \<open>The record the second loop pushes for the pending record at index \<open>i\<close>.\<close>

definition second_loop_record ::
  "services \<Rightarrow> entry list \<Rightarrow> nat \<Rightarrow> InputRecord \<times> string \<times> jsval \<Rightarrow> string \<Rightarrow> ResultRecord" where
  "second_loop_record w profileDataArray i pending t =
     (case pending of (item, h, mainProfileUrl) \<Rightarrow>
        (case description_at profileDataArray i of
           Inl error \<Rightarrow>
             \<lparr>name = founderName item, company = companyName item, r_email = email item,
              handle = Some h, profile_url = Some mainProfileUrl, dm_status = None,
              description = None, status = ''error'', reason = Some (message error),
              role = None, rank = None, confidence_reason = None, processed_at = t\<rparr>
         | Inr d \<Rightarrow>
             let resultEntry =
                   \<lparr>name = founderName item, company = companyName item, r_email = email item,
                    handle = Some h, profile_url = Some mainProfileUrl,
                    dm_status = Some ''open'',
                    description = Some (if truthy d then d else JStr []),
                    status = ''processed'', reason = None, role = None, rank = None,
                    confidence_reason = None, processed_at = t\<rparr>;
                 analysis = analyzeFounderProfile (chat_create w i) h (companyName item) ''undefined''
             in if truthy analysis
                then resultEntry
                  \<lparr>role := (case js_get analysis ''role'' of Inr v \<Rightarrow> Some v | Inl e \<Rightarrow> None),
                   rank := (case js_get analysis ''rank'' of Inr v \<Rightarrow> Some v | Inl e \<Rightarrow> None),
                   confidence_reason :=
                     (case js_get analysis ''confidence_reason'' of Inr v \<Rightarrow> Some v | Inl e \<Rightarrow> None)\<rparr>
                else resultEntry))"

fun second_loop ::
  "services \<Rightarrow> entry list \<Rightarrow> nat \<Rightarrow> (InputRecord \<times> string \<times> jsval) list
     \<Rightarrow> ResultRecord list \<Rightarrow> ResultRecord list" where
  "second_loop w profileDataArray i [] batchResults = batchResults"
| "second_loop w profileDataArray i (pending # rest) batchResults =
     second_loop w profileDataArray (Suc i) rest
       (batchResults @ [second_loop_record w profileDataArray i pending (now w (length batchResults))])"

definition processBatch :: "services \<Rightarrow> InputRecord list \<Rightarrow> nat \<Rightarrow> ResultRecord list" where
  "processBatch w batch batchIndex =
     (case first_loop w 0 batch ([], []) of
        (batchResults, handleItems) \<Rightarrow>
          if length handleItems > 0
          then
            let handles = map (\<lambda>(item, h, url). h) handleItems;
                profileDataArray = getProfileDescription w (Many handles)
            in second_loop w profileDataArray 0 handleItems batchResults
          else batchResults)"

text \<open>
  For the statements about a batch: whether the record at position \<open>k\<close> is held for
  the second loop, and the fields by which a result names its input record.
\<close>

definition held :: "services \<Rightarrow> nat \<times> InputRecord \<Rightarrow> bool" where
  "held w p = (case search_item w (fst p) (snd p) of Inr (Pending h url) \<Rightarrow> True | _ \<Rightarrow> False)"

definition input_key :: "InputRecord \<Rightarrow> string \<times> string \<times> string" where
  "input_key item = (founderName item, companyName item, email item)"

definition result_key :: "ResultRecord \<Rightarrow> string \<times> string \<times> string" where
  "result_key r = (name r, company r, r_email r)"

section \<open>The batches of a run (lines 632-658)\<close>

definition BATCH_SIZE :: nat where
  "BATCH_SIZE = 5"

function make_batches :: "'a list \<Rightarrow> 'a list list" where
  "make_batches searchQueries =
     (if searchQueries = [] then []
      else take BATCH_SIZE searchQueries # make_batches (drop BATCH_SIZE searchQueries))"
  by pat_completeness auto
termination
  by (relation "measure length") (auto simp: BATCH_SIZE_def)

declare make_batches.simps [simp del]

text \<open>
  The loop over the batches, from batch \<open>i\<close>, on \<open>global.currentResults\<close>.
  \<open>world i\<close> is the environment batch \<open>i\<close> runs in and \<open>isProcessing i\<close> the value of
  the shutdown flag when the loop tests it before batch \<open>i\<close>. The second component is
  the index of the batch before which the loop was interrupted, if it was.
\<close>

fun batch_loop ::
  "(nat \<Rightarrow> services) \<Rightarrow> (nat \<Rightarrow> bool) \<Rightarrow> nat \<Rightarrow> InputRecord list list
     \<Rightarrow> ResultRecord list \<Rightarrow> ResultRecord list \<times> nat option" where
  "batch_loop world isProcessing i [] currentResults = (currentResults, None)"
| "batch_loop world isProcessing i (batch # batches) currentResults =
     (if \<not> isProcessing i then (currentResults, Some i)
      else batch_loop world isProcessing (Suc i) batches
             (currentResults @ processBatch (world i) batch i))"

section \<open>Progress Checkpoint (lines 573-590)\<close>

text \<open>
  The file \<open>progress.json\<close>: absent, or present with some text; whether reading it and
  writing it succeed is part of the state of the file system.
\<close>

datatype file_state = Missing | File json_text

record filesystem =
  progress_json :: file_state
  readable :: bool
  writable :: bool

definition default_progress :: jsval where
  "default_progress = JObj [(''lastProcessedIndex'', JNum 0)]"

text \<open>Any error of the read or of the parse is caught and logged; the default follows.\<close>

definition loadProgress :: "filesystem \<Rightarrow> jsval" where
  "loadProgress fs =
     (case progress_json fs of
        Missing \<Rightarrow> default_progress
      | File t \<Rightarrow>
          if \<not> readable fs then default_progress
          else (case t of Malformed \<Rightarrow> default_progress | Text_of v \<Rightarrow> v))"

text \<open>A failed write is caught and logged; the file is as it was.\<close>

definition saveProgress :: "filesystem \<Rightarrow> int \<Rightarrow> filesystem" where
  "saveProgress fs lastProcessedIndex =
     (if writable fs
      then fs\<lparr>progress_json := File (Text_of (JObj [(''lastProcessedIndex'', JNum lastProcessedIndex)]))\<rparr>
      else fs)"

section \<open>An example environment\<close>

text \<open>
  For the concrete runs below: the search for the record at position 0 finds the
  profile of \<open>alice\<close>, every other search gets the zero-results marker; the snapshot
  is still running at the first poll and then holds rows for \<open>alice\<close> and \<open>bob\<close>;
  the classifier answers with a verdict.
\<close>

definition example_services :: services where
  "example_services =
     \<lparr>request = (\<lambda>k url attempt.
        if k = 0
        then Responded (Text_of (JObj [(''organic'',
               JArr [JObj [(''link'', JStr ''https://x.com/alice/status/123'')],
                     JObj [(''link'', JStr ''https://x.com/alice'')],
                     JObj [(''link'', JStr ''https://example.com/alice'')]])]))
        else Responded (Text_of (JObj [(''general'', JObj [(''results_cnt'', JNum 0)])]))),
      axios_post = (\<lambda>urls. AxiosData (JObj [(''snapshot_id'', JStr ''s_1'')])),
      axios_get = (\<lambda>snapshotId n.
        if n < 2 then AxiosData (JObj [(''status'', JStr ''running'')])
        else AxiosData (JArr
               [JObj [(''url'', JStr ''https://x.com/alice''), (''biography'', JStr ''Founder of Acme'')],
                JObj [(''url'', JStr ''https://x.com/bob''), (''biography'', JNull)]])),
      chat_create = (\<lambda>i prompt. Responded (Text_of
        (JObj [(''role'', JStr ''Founder''), (''rank'', JNum 9),
               (''confidence_reason'', JStr ''bio'')]))),
      url_parser = plain_URL,
      now = (\<lambda>n. ''2025-01-01T00:00:00.000Z'')\<rparr>"

definition jane :: InputRecord where
  "jane = \<lparr>founderName = ''Jane Doe'', companyName = ''Acme'', email = ''jane@acme.test'',
            searchQuery = ''site%3Ax.com%20(Jane)%20(Doe)%20(Acme)''\<rparr>"

definition alice :: InputRecord where
  "alice = \<lparr>founderName = ''Alice Roe'', companyName = ''Initech'', email = ''alice@initech.test'',
             searchQuery = ''site%3Ax.com%20(Alice)%20(Roe)%20(Initech)''\<rparr>"

section \<open>Properties of the Result Extractor\<close>

lemma takeWhile_run:
  "list_all P h \<Longrightarrow> r = [] \<or> \<not> P (hd r) \<Longrightarrow> takeWhile P (h @ r) = h"
  by (cases r) (auto simp: list_all_iff)

lemma searchParams_toString_empty: "searchParams_toString ps = [] \<longleftrightarrow> ps = []"
proof (cases ps)
  case Nil
  then show ?thesis by (simp add: searchParams_toString_def)
next
  case (Cons p qs)
  obtain k v where p: "p = (k, v)" by (cases p)
  show ?thesis
    by (cases qs) (simp_all add: Cons p searchParams_toString_def)
qed

lemma find_first:
  "i < length ls \<Longrightarrow> P (ls ! i) \<Longrightarrow> (\<forall>j<i. \<not> P (ls ! j)) \<Longrightarrow> find P ls = Some (ls ! i)"
proof (induction ls arbitrary: i)
  case Nil
  then show ?case by simp
next
  case (Cons a ls)
  show ?case
  proof (cases i)
    case 0
    with Cons.prems show ?thesis by simp
  next
    case (Suc k)
    with Cons.prems have "\<not> P a" by auto
    moreover from Suc Cons.prems have "find P ls = Some (ls ! k)"
      by (intro Cons.IH) auto
    ultimately show ?thesis using Suc by simp
  qed
qed

lemma match_here_iff:
  "prefix ''x.com/'' u \<and> takeWhile handle_char (drop 6 u) \<noteq> []
     \<longleftrightarrow> (\<exists>c t. u = ''x.com/'' @ c # t \<and> handle_char c)"
proof
  assume a: "prefix ''x.com/'' u \<and> takeWhile handle_char (drop 6 u) \<noteq> []"
  then obtain zs where u: "u = ''x.com/'' @ zs" by (auto simp: prefix_def)
  with a have "takeWhile handle_char zs \<noteq> []" by simp
  then obtain c t where "zs = c # t" "handle_char c"
    by (cases zs) (auto split: if_splits)
  with u show "\<exists>c t. u = ''x.com/'' @ c # t \<and> handle_char c" by blast
next
  assume "\<exists>c t. u = ''x.com/'' @ c # t \<and> handle_char c"
  then show "prefix ''x.com/'' u \<and> takeWhile handle_char (drop 6 u) \<noteq> []"
    by auto
qed

lemma regex_match_step:
  "regex_match (c # cs) =
     (if \<exists>d t. c # cs = ''x.com/'' @ d # t \<and> handle_char d
      then Some (takeWhile handle_char (drop 6 (c # cs)))
      else regex_match cs)"
  using match_here_iff [of "c # cs"] by (simp del: append.simps)

lemma regex_match_occurrence:
  "regex_match s = Some h \<Longrightarrow> \<exists>p c t. s = p @ ''x.com/'' @ c # t \<and> handle_char c"
proof (induction s)
  case Nil
  then show ?case by simp
next
  case (Cons a s)
  show ?case
  proof (cases "\<exists>d t. a # s = ''x.com/'' @ d # t \<and> handle_char d")
    case True
    then obtain d t where "a # s = [] @ ''x.com/'' @ d # t" "handle_char d" by auto
    then show ?thesis by blast
  next
    case False
    with Cons.prems have "regex_match s = Some h"
      by (simp only: regex_match_step if_False)
    from Cons.IH [OF this] obtain p c t where "s = p @ ''x.com/'' @ c # t" "handle_char c"
      by blast
    then have "a # s = (a # p) @ ''x.com/'' @ c # t" by simp
    with \<open>handle_char c\<close> show ?thesis by blast
  qed
qed

lemma occurrence_regex_match:
  "handle_char c \<Longrightarrow> regex_match (p @ ''x.com/'' @ c # t) \<noteq> None"
proof (induction p)
  case Nil
  have "\<exists>d t'. ''x.com/'' @ c # t = ''x.com/'' @ d # t' \<and> handle_char d"
    using Nil by blast
  then show ?case
    using Nil regex_match_step [of "CHR ''x''" "''.com/'' @ c # t"] by simp
next
  case (Cons a p)
  show ?case
    using Cons.IH [OF Cons.prems] regex_match_step [of a "p @ ''x.com/'' @ c # t"]
    by (simp del: regex_match.simps split: if_splits)
qed

lemma regex_match_leftmost:
  assumes "h \<noteq> []" "list_all handle_char h" "r = [] \<or> \<not> handle_char (hd r)"
    and "\<forall>p' c t. p @ ''x.com/'' @ h @ r = p' @ ''x.com/'' @ c # t \<and> handle_char c
           \<longrightarrow> length p \<le> length p'"
  shows "regex_match (p @ ''x.com/'' @ h @ r) = Some h"
  using assms(4)
proof (induction p)
  case Nil
  from assms(1,2) obtain d h' where h: "h = d # h'" "handle_char d"
    by (cases h) auto
  have "\<exists>d t'. ''x.com/'' @ h @ r = ''x.com/'' @ d # t' \<and> handle_char d"
    using h by auto
  moreover have "takeWhile handle_char (drop 6 (''x.com/'' @ h @ r)) = h"
    using assms(2,3) by (simp add: takeWhile_run)
  ultimately show ?case
    using regex_match_step [of "CHR ''x''" "''.com/'' @ h @ r"] by simp
next
  case (Cons a p)
  have no: "\<not> (\<exists>d t. a # p @ ''x.com/'' @ h @ r = ''x.com/'' @ d # t \<and> handle_char d)"
  proof
    assume "\<exists>d t. a # p @ ''x.com/'' @ h @ r = ''x.com/'' @ d # t \<and> handle_char d"
    then obtain d t where "(a # p) @ ''x.com/'' @ h @ r = [] @ ''x.com/'' @ d # t" "handle_char d"
      by auto
    with Cons.prems have "length (a # p) \<le> length ([]::string)" by blast
    then show False by simp
  qed
  have "\<forall>p' c t. p @ ''x.com/'' @ h @ r = p' @ ''x.com/'' @ c # t \<and> handle_char c
           \<longrightarrow> length p \<le> length p'"
  proof (intro allI impI)
    fix p' c t
    assume "p @ ''x.com/'' @ h @ r = p' @ ''x.com/'' @ c # t \<and> handle_char c"
    then have "(a # p) @ ''x.com/'' @ h @ r = (a # p') @ ''x.com/'' @ c # t \<and> handle_char c"
      by simp
    with Cons.prems have "length (a # p) \<le> length (a # p')" by blast
    then show "length p \<le> length p'" by simp
  qed
  then have "regex_match (p @ ''x.com/'' @ h @ r) = Some h" by (rule Cons.IH)
  moreover from no
  have "regex_match (a # p @ ''x.com/'' @ h @ r) = regex_match (p @ ''x.com/'' @ h @ r)"
    by (simp only: regex_match_step if_False)
  ultimately show ?case by (simp only: append_Cons)
qed

lemma no_x_leftmost:
  assumes "CHR ''x'' \<notin> set p"
  shows "\<forall>p' c t. p @ u = p' @ ''x.com/'' @ c # t \<and> handle_char c \<longrightarrow> length p \<le> length p'"
proof (intro allI impI, rule ccontr)
  fix p' c t
  assume eq: "p @ u = p' @ ''x.com/'' @ c # t \<and> handle_char c" and "\<not> length p \<le> length p'"
  then have less: "length p' < length p" by simp
  then have "(p @ u) ! length p' = p ! length p'" by (simp add: nth_append)
  moreover have "(p' @ ''x.com/'' @ c # t) ! length p' = CHR ''x''" by (simp add: nth_append)
  ultimately have "p ! length p' = CHR ''x''" using eq by simp
  with less assms show False by (metis nth_mem)
qed

text \<open>
  Claim C8, as amended. For a string, \<open>extractHandle\<close> looks for the leftmost place
  where \<open>x.com/\<close> is followed by a character other than \<open>/\<close> and \<open>?\<close>, anywhere in
  the string, and returns the longest run of such characters that follows it there; it
  returns \<open>null\<close> exactly when the string has no such place, and for a \<open>null\<close>,
  \<open>undefined\<close> or empty argument. The two examples of the specification hold.
\<close>

theorem extractHandle_spec:
  "extractHandle (JStr ''https://x.com/alice'') = Inr (JStr ''alice'')
   \<and> extractHandle (JStr ''https://example.com/alice'') = Inr JNull
   \<and> extractHandle JNull = Inr JNull
   \<and> extractHandle JUndefined = Inr JNull
   \<and> extractHandle (JStr []) = Inr JNull
   \<and> (\<forall>s. extractHandle (JStr s) = Inr JNull
          \<longleftrightarrow> \<not> (\<exists>p c t. s = p @ ''x.com/'' @ c # t \<and> handle_char c))
   \<and> (\<forall>p h r. h \<noteq> [] \<and> list_all handle_char h \<and> (r = [] \<or> \<not> handle_char (hd r))
          \<and> (\<forall>p' c t. p @ ''x.com/'' @ h @ r = p' @ ''x.com/'' @ c # t \<and> handle_char c
                \<longrightarrow> length p \<le> length p')
        \<longrightarrow> extractHandle (JStr (p @ ''x.com/'' @ h @ r)) = Inr (JStr h))"
proof -
  have ex1: "extractHandle (JStr ''https://x.com/alice'') = Inr (JStr ''alice'')"
    by (simp add: extractHandle_def handle_char_def)
  have ex2: "extractHandle (JStr ''https://example.com/alice'') = Inr JNull"
    by (simp add: extractHandle_def handle_char_def)
  have falsy: "extractHandle JNull = Inr JNull" "extractHandle JUndefined = Inr JNull"
    "extractHandle (JStr []) = Inr JNull"
    by (simp_all add: extractHandle_def)
  have null: "extractHandle (JStr s) = Inr JNull
          \<longleftrightarrow> \<not> (\<exists>p c t. s = p @ ''x.com/'' @ c # t \<and> handle_char c)" for s
  proof (cases "regex_match s")
    case None
    have "\<not> (\<exists>p c t. s = p @ ''x.com/'' @ c # t \<and> handle_char c)"
      using None occurrence_regex_match by blast
    with None show ?thesis by (simp add: extractHandle_def)
  next
    case (Some h)
    then have "s \<noteq> []" by auto
    with Some regex_match_occurrence [OF Some] show ?thesis
      by (simp add: extractHandle_def)
  qed
  have seg: "extractHandle (JStr (p @ ''x.com/'' @ h @ r)) = Inr (JStr h)"
    if "h \<noteq> [] \<and> list_all handle_char h \<and> (r = [] \<or> \<not> handle_char (hd r))
          \<and> (\<forall>p' c t. p @ ''x.com/'' @ h @ r = p' @ ''x.com/'' @ c # t \<and> handle_char c
                \<longrightarrow> length p \<le> length p')" for p h r
  proof -
    from that have "regex_match (p @ ''x.com/'' @ h @ r) = Some h"
      by (intro regex_match_leftmost) blast+
    then show ?thesis by (simp add: extractHandle_def)
  qed
  from ex1 ex2 falsy null seg show ?thesis by blast
qed

theorem extractHandle_spec_witness:
  "extractHandle (JStr ''https://x.com/bob_42/status/7'') = Inr (JStr ''bob_42'')
   \<and> extractHandle (JStr ''https://twitter.test/bob_42'') = Inr JNull"
proof -
  have a: "''bob_42'' \<noteq> [] \<and> list_all handle_char ''bob_42''
      \<and> (''/status/7'' = [] \<or> \<not> handle_char (hd ''/status/7''))
      \<and> (\<forall>p' c t. ''https://'' @ ''x.com/'' @ ''bob_42'' @ ''/status/7'' = p' @ ''x.com/'' @ c # t
                \<and> handle_char c \<longrightarrow> length ''https://'' \<le> length p')"
    using no_x_leftmost [of "''https://''" "''x.com/'' @ ''bob_42'' @ ''/status/7''"]
    by (simp add: handle_char_def)
  have "regex_match ''https://twitter.test/bob_42'' = None"
    by (simp add: handle_char_def)
  then have b: "\<not> (\<exists>p c t. ''https://twitter.test/bob_42'' = p @ ''x.com/'' @ c # t \<and> handle_char c)"
    using occurrence_regex_match by metis
  from extractHandle_spec a
  have "extractHandle (JStr (''https://'' @ ''x.com/'' @ ''bob_42'' @ ''/status/7'')) = Inr (JStr ''bob_42'')"
    by blast
  moreover from extractHandle_spec b
  have "extractHandle (JStr ''https://twitter.test/bob_42'') = Inr JNull"
    by blast
  ultimately show ?thesis by simp
qed

text \<open>
  The claim as stated fails: the pattern is not tied to the domain, so a URL of another
  domain that ends in \<open>x.com\<close> gives a handle instead of \<open>null\<close>; and the run stops only
  at \<open>/\<close> and \<open>?\<close>, so what is returned can be more than the path segment.
\<close>

theorem extractHandle_counterexample:
  "extractHandle (JStr ''https://netflix.com/title'') = Inr (JStr ''title'')
   \<and> extractHandle (JStr ''https://x.com/alice#frag'') = Inr (JStr ''alice#frag'')"
  by (simp add: extractHandle_def handle_char_def)

lemmas plain_URL_eval =
  mainProfile_test_def plain_URL_def URL_parse_def lower_char_def plain_char_def
  parse_query_def searchParams_toString_def

text \<open>
  Claim C7, as amended. \<open>extractMainProfileLink\<close> returns the first link, in input
  order, that passes the test: the link parses as a URL whose path has exactly one
  non-empty segment and whose query has no parameters. When no link passes (the empty
  list included) it returns \<open>undefined\<close>. For an array it returns \<open>undefined\<close> or an
  element of the array that passes the test, so never \<open>null\<close> for an array of strings;
  it returns \<open>null\<close> when its argument is not an array (\<open>null\<close> and \<open>undefined\<close>
  included). On the two links of the specification's example it returns the first.
  The statement holds for every behaviour \<open>U\<close> of the \<open>URL\<close> constructor.
\<close>

theorem extractMainProfileLink_spec:
  "(\<forall>i. i < length ls \<and> mainProfile_test U (ls ! i) \<and> (\<forall>j. j < i \<longrightarrow> \<not> mainProfile_test U (ls ! j))
        \<longrightarrow> extractMainProfileLink U (JArr ls) = ls ! i)
   \<and> ((\<forall>l \<in> set ls. \<not> mainProfile_test U l) \<longrightarrow> extractMainProfileLink U (JArr ls) = JUndefined)
   \<and> (extractMainProfileLink U (JArr ls) = JUndefined
        \<or> (extractMainProfileLink U (JArr ls) \<in> set ls
            \<and> mainProfile_test U (extractMainProfileLink U (JArr ls))))
   \<and> ((\<forall>l \<in> set ls. \<exists>s. l = JStr s) \<longrightarrow> extractMainProfileLink U (JArr ls) \<noteq> JNull)
   \<and> (\<forall>v. (\<forall>xs. v \<noteq> JArr xs) \<longrightarrow> extractMainProfileLink U v = JNull)
   \<and> (\<forall>l. mainProfile_test U l \<longleftrightarrow>
          (\<exists>url. U l = Some url
             \<and> length (filter (\<lambda>p. p \<noteq> []) (split_on CHR ''/'' (pathname url))) = 1
             \<and> searchParams url = []))
   \<and> extractMainProfileLink plain_URL
         (JArr [JStr ''https://x.com/alice'', JStr ''https://x.com/alice/status/123''])
       = JStr ''https://x.com/alice''"
proof -
  have first: "extractMainProfileLink U (JArr ls) = ls ! i"
    if "i < length ls" "mainProfile_test U (ls ! i)" "\<forall>j. j < i \<longrightarrow> \<not> mainProfile_test U (ls ! j)" for i
    using find_first [of i ls "mainProfile_test U"] that
    by (simp add: extractMainProfileLink_def)
  have none: "extractMainProfileLink U (JArr ls) = JUndefined"
    if "\<forall>l \<in> set ls. \<not> mainProfile_test U l"
  proof -
    from that have "find (mainProfile_test U) ls = None"
      by (simp add: find_None_iff)
    then show ?thesis by (simp add: extractMainProfileLink_def)
  qed
  have element: "extractMainProfileLink U (JArr ls) = JUndefined
        \<or> (extractMainProfileLink U (JArr ls) \<in> set ls
            \<and> mainProfile_test U (extractMainProfileLink U (JArr ls)))"
  proof (cases "find (mainProfile_test U) ls")
    case None
    then show ?thesis by (simp add: extractMainProfileLink_def)
  next
    case (Some l)
    then have "l \<in> set ls \<and> mainProfile_test U l"
      by (auto simp: find_Some_iff)
    with Some show ?thesis by (simp add: extractMainProfileLink_def)
  qed
  have strings: "extractMainProfileLink U (JArr ls) \<noteq> JNull" if "\<forall>l \<in> set ls. \<exists>s. l = JStr s"
    using element that by auto
  have guard: "extractMainProfileLink U v = JNull" if "\<forall>xs. v \<noteq> JArr xs" for v
    using that by (cases v) (simp_all add: extractMainProfileLink_def)
  have test: "mainProfile_test U l \<longleftrightarrow>
          (\<exists>url. U l = Some url
             \<and> length (filter (\<lambda>p. p \<noteq> []) (split_on CHR ''/'' (pathname url))) = 1
             \<and> searchParams url = [])" for l
    by (cases "U l") (simp_all add: mainProfile_test_def searchParams_toString_empty)
  have example: "extractMainProfileLink plain_URL
         (JArr [JStr ''https://x.com/alice'', JStr ''https://x.com/alice/status/123''])
       = JStr ''https://x.com/alice''"
    by (simp add: extractMainProfileLink_def plain_URL_eval)
  from first none element strings guard test example show ?thesis by blast
qed

theorem extractMainProfileLink_spec_witness:
  "extractMainProfileLink plain_URL
     (JArr [JStr ''https://x.com/bob/status/9'', JStr ''https://x.com/bob'', JStr ''https://x.com/carol''])
     = JStr ''https://x.com/bob''
   \<and> extractMainProfileLink plain_URL
       (JArr [JStr ''https://x.com/bob/status/9'', JStr ''https://x.com/bob?lang=en'']) = JUndefined
   \<and> extractMainProfileLink plain_URL
       (JArr [JStr ''https://x.com/bob/status/9'', JStr ''https://x.com/bob?lang=en'']) \<noteq> JNull
   \<and> extractMainProfileLink plain_URL (JStr ''https://x.com/bob'') = JNull"
proof -
  let ?ls = "[JStr ''https://x.com/bob/status/9'', JStr ''https://x.com/bob'', JStr ''https://x.com/carol'']"
  let ?ms = "[JStr ''https://x.com/bob/status/9'', JStr ''https://x.com/bob?lang=en'']"
  have a: "(1::nat) < length ?ls \<and> mainProfile_test plain_URL (?ls ! 1)
      \<and> (\<forall>j. j < (1::nat) \<longrightarrow> \<not> mainProfile_test plain_URL (?ls ! j))"
    by (simp add: plain_URL_eval)
  have b: "\<forall>l \<in> set ?ms. \<not> mainProfile_test plain_URL l"
    by (simp add: plain_URL_eval)
  have b': "\<forall>l \<in> set ?ms. \<exists>s. l = JStr s"
    by simp
  have c: "\<forall>xs. JStr ''https://x.com/bob'' \<noteq> JArr xs"
    by simp
  from a extractMainProfileLink_spec [of ?ls plain_URL]
  have "extractMainProfileLink plain_URL (JArr ?ls) = ?ls ! 1" by blast
  moreover from b extractMainProfileLink_spec [of ?ms plain_URL]
  have "extractMainProfileLink plain_URL (JArr ?ms) = JUndefined" by blast
  moreover from b' extractMainProfileLink_spec [of ?ms plain_URL]
  have "extractMainProfileLink plain_URL (JArr ?ms) \<noteq> JNull" by blast
  moreover from c extractMainProfileLink_spec [of "[]" plain_URL]
  have "extractMainProfileLink plain_URL (JStr ''https://x.com/bob'') = JNull" by blast
  ultimately show ?thesis by simp
qed

text \<open>
  The claim as stated fails twice: for the empty list the result is \<open>undefined\<close>, not
  \<open>null\<close>; and a link whose query string is not empty but holds no parameter
  (\<open>?&\<close>) is returned, since only the serialised parameters are tested.
\<close>

theorem extractMainProfileLink_counterexample:
  "extractMainProfileLink plain_URL (JArr []) = JUndefined
   \<and> extractMainProfileLink plain_URL (JArr []) \<noteq> JNull
   \<and> extractMainProfileLink plain_URL (JArr [JStr ''https://x.com/alice?&''])
       = JStr ''https://x.com/alice?&''"
  by (simp add: extractMainProfileLink_def plain_URL_eval)

section \<open>Properties of the Progress Checkpoint\<close>

text \<open>
  Claim C9. After a successful write of \<open>n\<close>, reading the checkpoint back gives
  \<open>{lastProcessedIndex: n}\<close> (the file being readable); with no checkpoint file, or with
  a file that cannot be read or parsed, \<open>loadProgress\<close> gives \<open>{lastProcessedIndex: 0}\<close>.
\<close>

theorem checkpoint_round_trip:
  "(writable fs \<and> readable fs \<longrightarrow>
      loadProgress (saveProgress fs n) = JObj [(''lastProcessedIndex'', JNum n)])
   \<and> (progress_json fs = Missing \<longrightarrow> loadProgress fs = JObj [(''lastProcessedIndex'', JNum 0)])
   \<and> ((\<not> readable fs \<or> progress_json fs = File Malformed)
        \<longrightarrow> loadProgress fs = JObj [(''lastProcessedIndex'', JNum 0)])"
  by (auto simp: loadProgress_def saveProgress_def default_progress_def split: file_state.splits)

theorem checkpoint_round_trip_witness:
  "loadProgress (saveProgress \<lparr>progress_json = Missing, readable = True, writable = True\<rparr> 42)
     = JObj [(''lastProcessedIndex'', JNum 42)]
   \<and> loadProgress \<lparr>progress_json = Missing, readable = True, writable = True\<rparr>
     = JObj [(''lastProcessedIndex'', JNum 0)]
   \<and> loadProgress \<lparr>progress_json = File Malformed, readable = True, writable = True\<rparr>
     = JObj [(''lastProcessedIndex'', JNum 0)]"
  using checkpoint_round_trip [of "\<lparr>progress_json = Missing, readable = True, writable = True\<rparr>" 42]
    checkpoint_round_trip [of "\<lparr>progress_json = File Malformed, readable = True, writable = True\<rparr>" 0]
  by simp

section \<open>Properties of the Retrying Fetcher\<close>

lemma retry_delay_formula: "retry_delay a = min (2000 * (3 / 2) powi (a - 1)) 30000"
  by (simp add: retry_delay_def RETRY_CONFIG_def)

lemma retry_delay_values:
  "retry_delay 1 = 2000" "retry_delay 2 = 3000" "retry_delay 3 = 4500" "retry_delay 4 = 6750"
  by (simp_all add: retry_delay_def RETRY_CONFIG_def power_divide)

lemma fetch_step:
  "fetchWithRetry req url a =
     (case attempt_try (req url a) of
        Inr d \<Rightarrow> \<lparr>returned = d, requests = 1, delays = []\<rparr>
      | Inl e \<Rightarrow>
          if 5 \<le> a then \<lparr>returned = JNull, requests = 1, delays = []\<rparr>
          else \<lparr>returned = returned (fetchWithRetry req url (a + 1)),
                requests = requests (fetchWithRetry req url (a + 1)) + 1,
                delays = retry_delay a # delays (fetchWithRetry req url (a + 1))\<rparr>)"
  by (subst fetchWithRetry.simps) (simp add: RETRY_CONFIG_def Let_def split: sum.splits)

lemma fetch_first_success:
  "a \<le> k \<Longrightarrow> k \<le> 5 \<Longrightarrow>
   (\<forall>b. a \<le> b \<and> b < k \<longrightarrow> (\<exists>e. attempt_try (req url b) = Inl e)) \<Longrightarrow>
   attempt_try (req url k) = Inr v \<Longrightarrow>
   fetchWithRetry req url a
     = \<lparr>returned = v, requests = nat (k - a) + 1, delays = map retry_delay [a..k - 1]\<rparr>"
proof (induction "nat (k - a)" arbitrary: a)
  case 0
  then have "a = k" by simp
  with "0.prems" show ?case by (simp add: fetch_step)
next
  case (Suc n)
  then have less: "a < k" by simp
  with Suc.prems obtain e where e: "attempt_try (req url a) = Inl e" by blast
  have "fetchWithRetry req url (a + 1)
      = \<lparr>returned = v, requests = nat (k - (a + 1)) + 1, delays = map retry_delay [a + 1..k - 1]\<rparr>"
  proof (rule Suc.hyps(1))
    show "n = nat (k - (a + 1))" using Suc.hyps(2) by simp
    show "a + 1 \<le> k" using less by simp
    show "k \<le> 5" by (rule Suc.prems(2))
    show "\<forall>b. a + 1 \<le> b \<and> b < k \<longrightarrow> (\<exists>e. attempt_try (req url b) = Inl e)"
      using Suc.prems(3) by simp
    show "attempt_try (req url k) = Inr v" by (rule Suc.prems(4))
  qed
  moreover have "[a..k - 1] = a # [a + 1..k - 1]"
    using less by (simp add: upto_rec1)
  moreover have "\<not> 5 \<le> a" using less Suc.prems(2) by simp
  moreover have "nat (k - (a + 1)) + 1 = nat (k - a)" using less by simp
  ultimately show ?case using e by (simp add: fetch_step [of req url a])
qed

lemma fetch_all_fail:
  "a \<le> 5 \<Longrightarrow>
   (\<forall>b. a \<le> b \<and> b \<le> 5 \<longrightarrow> (\<exists>e. attempt_try (req url b) = Inl e)) \<Longrightarrow>
   fetchWithRetry req url a
     = \<lparr>returned = JNull, requests = nat (5 - a) + 1, delays = map retry_delay [a..4]\<rparr>"
proof (induction "nat (5 - a)" arbitrary: a)
  case 0
  then have "a = 5" by simp
  with "0.prems" show ?case by (auto simp: fetch_step)
next
  case (Suc n)
  then have less: "a < 5" by simp
  with Suc.prems obtain e where e: "attempt_try (req url a) = Inl e" by force
  have "fetchWithRetry req url (a + 1)
      = \<lparr>returned = JNull, requests = nat (5 - (a + 1)) + 1, delays = map retry_delay [a + 1..4]\<rparr>"
  proof (rule Suc.hyps(1))
    show "n = nat (5 - (a + 1))" using Suc.hyps(2) by simp
    show "a + 1 \<le> 5" using less by simp
    show "\<forall>b. a + 1 \<le> b \<and> b \<le> 5 \<longrightarrow> (\<exists>e. attempt_try (req url b) = Inl e)"
      using Suc.prems(2) by simp
  qed
  moreover have "[a..4] = a # [a + 1..4]"
    using less by (simp add: upto_rec1)
  moreover have "\<not> 5 \<le> a" using less by simp
  moreover have "nat (5 - (a + 1)) + 1 = nat (5 - a)" using less by simp
  ultimately show ?case using e by (simp add: fetch_step [of req url a])
qed

lemma fetch_delays:
  "\<exists>n. 0 \<le> n \<and> n \<le> 4
     \<and> requests (fetchWithRetry req url 1) = nat n + 1
     \<and> delays (fetchWithRetry req url 1) = map retry_delay [1..n]"
proof (cases "\<exists>k. 1 \<le> k \<and> k \<le> 5 \<and> (\<exists>v. attempt_try (req url k) = Inr v)")
  case False
  then have "\<forall>b. 1 \<le> b \<and> b \<le> 5 \<longrightarrow> (\<exists>e. attempt_try (req url b) = Inl e)"
    by (metis sum.exhaust)
  then have "fetchWithRetry req url 1
      = \<lparr>returned = JNull, requests = nat (5 - 1) + 1, delays = map retry_delay [1..4]\<rparr>"
    by (intro fetch_all_fail) simp_all
  then show ?thesis by (intro exI [of _ 4]) simp
next
  case True
  define P where "P j \<longleftrightarrow> (\<exists>v. attempt_try (req url (int j)) = Inr v) \<and> 1 \<le> j" for j
  from True obtain k where "1 \<le> k" "k \<le> 5" "\<exists>v. attempt_try (req url k) = Inr v" by blast
  then have "P (nat k)" by (simp add: P_def)
  then have least: "P (LEAST j. P j)" by (rule LeastI)
  have minimal: "\<not> P j" if "j < (LEAST j. P j)" for j
    using that by (rule not_less_Least)
  define m where "m = int (LEAST j. P j)"
  have "(LEAST j. P j) \<le> nat k" using \<open>P (nat k)\<close> by (rule Least_le)
  then have m5: "m \<le> 5" using \<open>k \<le> 5\<close> by (simp add: m_def)
  from least obtain v where v: "attempt_try (req url m) = Inr v" and m1: "1 \<le> m"
    by (auto simp: P_def m_def)
  have before: "\<forall>b. 1 \<le> b \<and> b < m \<longrightarrow> (\<exists>e. attempt_try (req url b) = Inl e)"
  proof (intro allI impI)
    fix b assume b: "1 \<le> b \<and> b < m"
    then have "nat b < (LEAST j. P j)" by (simp add: m_def nat_less_iff)
    then have "\<not> P (nat b)" by (rule minimal)
    with b show "\<exists>e. attempt_try (req url b) = Inl e"
      by (cases "attempt_try (req url b)") (auto simp: P_def)
  qed
  from m1 m5 before v have "fetchWithRetry req url 1
      = \<lparr>returned = v, requests = nat (m - 1) + 1, delays = map retry_delay [1..m - 1]\<rparr>"
    by (rule fetch_first_success)
  with m1 m5 show ?thesis by (intro exI [of _ "m - 1"]) simp
qed

lemma attempt_try_success:
  "attempt_try out = Inr v \<longleftrightarrow>
     (\<exists>j. out = Responded (Text_of j)
        \<and> ((zero_results j \<and> v = JObj [(''organic'', JArr [])])
            \<or> (\<not> zero_results j \<and> has_organic j \<and> v = j)))"
  by (auto simp: attempt_try_def split: http_outcome.splits json_text.splits)

text \<open>
  Claim C2. A call from attempt 1 makes at most five requests, one more than the
  delays it waits; the delay before the retry that follows attempt \<open>a\<close> is
  \<open>min (2000 * 1.5^(a-1)) 30000\<close> milliseconds; when all five attempts fail the result
  is \<open>null\<close>, after five requests; when attempt \<open>k\<close> is the first to succeed the result
  is that attempt's value, after \<open>k\<close> requests; and an attempt succeeds exactly when the
  body parses to a payload with the zero-results marker (the value is then the empty
  result set) or, failing that, with a truthy \<open>organic\<close> (the value is then the
  payload). The function is total and has no error result: every \<open>throw\<close> of an
  attempt is an \<open>Inl\<close> of \<open>attempt_try\<close>, which the handler consumes.
\<close>

theorem fetchWithRetry_spec:
  "(\<exists>n. 0 \<le> n \<and> n \<le> 4
        \<and> requests (fetchWithRetry req url 1) = nat n + 1
        \<and> delays (fetchWithRetry req url 1)
            = map (\<lambda>a. min (2000 * (3 / 2) powi (a - 1)) 30000) [1..n])
   \<and> requests (fetchWithRetry req url 1) \<le> 5
   \<and> ((\<forall>a. 1 \<le> a \<and> a \<le> 5 \<longrightarrow> (\<exists>e. attempt_try (req url a) = Inl e))
        \<longrightarrow> fetchWithRetry req url 1
            = \<lparr>returned = JNull, requests = 5, delays = [2000, 3000, 4500, 6750]\<rparr>)
   \<and> (\<forall>k v. 1 \<le> k \<and> k \<le> 5
          \<and> (\<forall>a. 1 \<le> a \<and> a < k \<longrightarrow> (\<exists>e. attempt_try (req url a) = Inl e))
          \<and> attempt_try (req url k) = Inr v
        \<longrightarrow> returned (fetchWithRetry req url 1) = v
            \<and> requests (fetchWithRetry req url 1) = nat k)
   \<and> (\<forall>out v. attempt_try out = Inr v \<longleftrightarrow>
          (\<exists>j. out = Responded (Text_of j)
             \<and> ((zero_results j \<and> v = JObj [(''organic'', JArr [])])
                 \<or> (\<not> zero_results j \<and> has_organic j \<and> v = j))))"
proof -
  have fun_eq: "(\<lambda>a. min (2000 * (3 / 2) powi (a - 1)) 30000) = retry_delay"
    by (rule ext) (simp add: retry_delay_formula)
  have trace: "\<exists>n. 0 \<le> n \<and> n \<le> 4
        \<and> requests (fetchWithRetry req url 1) = nat n + 1
        \<and> delays (fetchWithRetry req url 1)
            = map (\<lambda>a. min (2000 * (3 / 2) powi (a - 1)) 30000) [1..n]"
    unfolding fun_eq by (rule fetch_delays)
  then have bound: "requests (fetchWithRetry req url 1) \<le> 5"
    by auto
  have exhausted: "fetchWithRetry req url 1
            = \<lparr>returned = JNull, requests = 5, delays = [2000, 3000, 4500, 6750]\<rparr>"
    if "\<forall>a. 1 \<le> a \<and> a \<le> 5 \<longrightarrow> (\<exists>e. attempt_try (req url a) = Inl e)"
  proof -
    have "fetchWithRetry req url 1
        = \<lparr>returned = JNull, requests = nat (5 - 1) + 1, delays = map retry_delay [1..4]\<rparr>"
      using that by (intro fetch_all_fail) simp_all
    moreover have "[1..4] = [1, 2, 3, 4::int]"
      by (simp add: upto_rec1)
    ultimately show ?thesis by (simp add: retry_delay_values)
  qed
  have success: "returned (fetchWithRetry req url 1) = v
        \<and> requests (fetchWithRetry req url 1) = nat k"
    if "1 \<le> k \<and> k \<le> 5
          \<and> (\<forall>a. 1 \<le> a \<and> a < k \<longrightarrow> (\<exists>e. attempt_try (req url a) = Inl e))
          \<and> attempt_try (req url k) = Inr v" for k v
  proof -
    from that have "fetchWithRetry req url 1
        = \<lparr>returned = v, requests = nat (k - 1) + 1, delays = map retry_delay [1..k - 1]\<rparr>"
      by (intro fetch_first_success) simp_all
    moreover have "nat (k - 1) + 1 = nat k" using that by linarith
    ultimately show ?thesis by simp
  qed
  from trace bound exhausted success attempt_try_success show ?thesis by blast
qed

theorem fetchWithRetry_spec_witness:
  "returned (fetchWithRetry
         (\<lambda>u a. if a < 5 then Rejected ''timeout''
                 else Responded (Text_of (JObj [(''organic'', JArr [JObj [(''link'', JStr ''https://x.com/alice'')]])])))
         ''https://www.google.com/search?q=alice&brd_json=1'' 1)
     = JObj [(''organic'', JArr [JObj [(''link'', JStr ''https://x.com/alice'')]])]
   \<and> requests (fetchWithRetry
         (\<lambda>u a. if a < 5 then Rejected ''timeout''
                 else Responded (Text_of (JObj [(''organic'', JArr [JObj [(''link'', JStr ''https://x.com/alice'')]])])))
         ''https://www.google.com/search?q=alice&brd_json=1'' 1) = 5
   \<and> fetchWithRetry (\<lambda>u a. Rejected ''timeout'') ''https://www.google.com/search?q=alice&brd_json=1'' 1
     = \<lparr>returned = JNull, requests = 5, delays = [2000, 3000, 4500, 6750]\<rparr>"
proof -
  let ?payload = "JObj [(''organic'', JArr [JObj [(''link'', JStr ''https://x.com/alice'')]])]"
  let ?flaky = "\<lambda>(u::string) (a::int). if a < 5 then Rejected ''timeout'' else Responded (Text_of ?payload)"
  let ?dead = "\<lambda>(u::string) (a::int). Rejected ''timeout''"
  let ?url = "''https://www.google.com/search?q=alice&brd_json=1''"
  have h1: "(1::int) \<le> 5 \<and> (5::int) \<le> 5
      \<and> (\<forall>a. 1 \<le> a \<and> a < 5 \<longrightarrow> (\<exists>e. attempt_try (?flaky ?url a) = Inl e))
      \<and> attempt_try (?flaky ?url 5) = Inr ?payload"
    by (simp add: attempt_try_def zero_results_def has_organic_def js_get_def)
  have h2: "\<forall>a. 1 \<le> a \<and> a \<le> 5 \<longrightarrow> (\<exists>e. attempt_try (?dead ?url a) = Inl e)"
    by (simp add: attempt_try_def)
  from h1 fetchWithRetry_spec [of ?flaky ?url]
  have "returned (fetchWithRetry ?flaky ?url 1) = ?payload
      \<and> requests (fetchWithRetry ?flaky ?url 1) = nat 5"
    by blast
  moreover from h2 fetchWithRetry_spec [of ?dead ?url]
  have "fetchWithRetry ?dead ?url 1
      = \<lparr>returned = JNull, requests = 5, delays = [2000, 3000, 4500, 6750]\<rparr>"
    by blast
  ultimately show ?thesis by simp
qed

section \<open>Properties of the Snapshot Poller\<close>

lemma try_length:
  "getProfileDescription_try w handles = Inr r \<Longrightarrow> length r = length (handlesArray handles)"
  by (auto simp: getProfileDescription_try_def Let_def
           split: if_splits axios_outcome.splits sum.splits)

lemma getProfileDescription_length:
  "length (getProfileDescription w handles) = length (handlesArray handles)"
proof (cases "getProfileDescription_try w handles")
  case (Inl e)
  then show ?thesis by (cases handles) (simp_all add: getProfileDescription_def)
next
  case (Inr r)
  then show ?thesis using try_length [OF Inr] by (simp add: getProfileDescription_def)
qed

lemma catch_all:
  "getProfileDescription_try w handles = Inl e \<Longrightarrow>
   getProfileDescription w handles = map (\<lambda>h. Profile (api_error e)) (handlesArray handles)"
  by (cases handles) (simp_all add: getProfileDescription_def)

lemma map_ok_empty: "map_ok empty_map"
  by (simp add: map_ok_def empty_map_def)

lemma map_ok_set: "map_ok m \<Longrightarrow> canDm v \<Longrightarrow> map_ok (map_set m k v)"
  by (auto simp: map_ok_def map_set_def)

lemma map_ok_build: "build_map rows m = Inr m' \<Longrightarrow> map_ok m \<Longrightarrow> map_ok m'"
proof (induction rows arbitrary: m)
  case Nil
  then show ?case by simp
next
  case (Cons profile rows)
  from Cons.prems show ?case
    by (auto split: sum.splits jsval.splits if_splits intro!: Cons.IH map_ok_set)
qed

lemma map_ok_get: "map_ok m \<Longrightarrow> map_get m k = Profile p \<Longrightarrow> canDm p"
  by (auto simp: map_ok_def map_get_def split: option.splits if_splits dest!: map_of_SomeD)

lemma try_shape:
  "getProfileDescription_try w handles = Inr r \<Longrightarrow>
   r = [] \<or> (\<exists>pm. map_ok pm \<and>
          r = map (\<lambda>h. if entry_truthy (map_get pm h) then map_get pm h else Profile not_found)
                (handlesArray handles))"
  by (auto simp: getProfileDescription_try_def Let_def
           split: if_splits axios_outcome.splits sum.splits jsval.splits
           intro: map_ok_empty map_ok_build [OF _ map_ok_empty])

lemma try_canDm:
  assumes "getProfileDescription_try w handles = Inr r" "Profile p \<in> set r"
  shows "canDm p"
proof -
  from assms try_shape [OF assms(1)] obtain pm where pm: "map_ok pm"
    and r: "r = map (\<lambda>h. if entry_truthy (map_get pm h) then map_get pm h else Profile not_found)
                (handlesArray handles)"
    by auto
  from assms(2) r
  have "Profile p \<in> (\<lambda>h. if entry_truthy (map_get pm h) then map_get pm h else Profile not_found)
          ` set (handlesArray handles)"
    by simp
  then obtain h where
    h: "Profile p = (if entry_truthy (map_get pm h) then map_get pm h else Profile not_found)"
    by (rule imageE)
  show ?thesis
  proof (cases "entry_truthy (map_get pm h)")
    case True
    with h have "map_get pm h = Profile p" by simp
    with pm show ?thesis by (rule map_ok_get)
  next
    case False
    with h show ?thesis by (simp add: not_found_def)
  qed
qed

lemma getProfileDescription_canDm:
  "Profile p \<in> set (getProfileDescription w handles) \<Longrightarrow> canDm p"
proof (cases "getProfileDescription_try w handles")
  case (Inl e)
  assume "Profile p \<in> set (getProfileDescription w handles)"
  with Inl show ?thesis
    by (cases handles) (auto simp: getProfileDescription_def api_error_def)
next
  case (Inr r)
  assume "Profile p \<in> set (getProfileDescription w handles)"
  with Inr show ?thesis
    by (auto simp: getProfileDescription_def intro: try_canDm)
qed

lemma poll_never_terminal:
  "a \<le> 10 \<Longrightarrow> still_running f \<Longrightarrow>
   (\<forall>n. a < n \<and> n \<le> 10 \<longrightarrow> not_terminal (get n)) \<Longrightarrow>
   (\<exists>e. poll get f a = Inl e) \<or> (\<exists>f'. poll get f a = Inr f' \<and> still_running f')"
proof (induction "10 - a" arbitrary: a f)
  case 0
  then have "a = 10" by simp
  with "0.prems" show ?case by (subst poll.simps, subst (2) poll.simps) (simp add: maxAttempts_def)
next
  case (Suc n)
  then have less: "a < 10" by simp
  have nt: "not_terminal (get (a + 1))" using Suc.prems(3) less by simp
  have later: "\<forall>n. a + 1 < n \<and> n \<le> 10 \<longrightarrow> not_terminal (get n)"
    using Suc.prems(3) by simp
  have n: "n = 10 - (a + 1)" using Suc.hyps(2) by simp
  have le: "a + 1 \<le> 10" using less by simp
  have step: "poll get f a =
     (case get (a + 1) of
        AxiosRejected m \<Rightarrow> if a + 1 \<ge> 10 then Inl (Error m) else poll get f (a + 1)
      | AxiosData d \<Rightarrow>
          (case js_get d ''status'' of
             Inl e \<Rightarrow> if a + 1 \<ge> 10 then Inl e else poll get d (a + 1)
           | Inr s \<Rightarrow> poll get d (a + 1)))"
    using less Suc.prems(2)
    by (subst poll.simps) (simp add: maxAttempts_def split: axios_outcome.splits sum.splits)
  show ?case
  proof (cases "get (a + 1)")
    case (AxiosRejected m)
    with step Suc.hyps(1) [OF n le Suc.prems(2) later] show ?thesis
      by auto
  next
    case (AxiosData d)
    with nt have d: "still_running d" by (simp add: not_terminal_def)
    from step AxiosData Suc.hyps(1) [OF n le d later] show ?thesis
      by (cases "js_get d ''status''") auto
  qed
qed

lemma try_never_terminal:
  assumes "handlesArray handles \<noteq> []"
    and "axios_post w (map x_url (take 20 (handlesArray handles)))
           = AxiosData d"
    and "js_get d ''snapshot_id'' = Inr sid"
    and "\<forall>n. 1 \<le> n \<and> n \<le> 10 \<longrightarrow> not_terminal (axios_get w sid n)"
  shows "\<exists>e. getProfileDescription_try w handles = Inl e"
proof -
  have "still_running JNull" by (simp add: still_running_def)
  moreover have "\<forall>n. 0 < n \<and> n \<le> 10 \<longrightarrow> not_terminal (axios_get w sid n)"
    using assms(4) by (simp add: Suc_le_eq)
  ultimately have
    "(\<exists>e. poll (axios_get w sid) JNull 0 = Inl e)
     \<or> (\<exists>f'. poll (axios_get w sid) JNull 0 = Inr f' \<and> still_running f')"
    by (intro poll_never_terminal) simp_all
  then show ?thesis
  proof
    assume "\<exists>e. poll (axios_get w sid) JNull 0 = Inl e"
    with assms(1-3) show ?thesis
      by (auto simp: getProfileDescription_try_def)
  next
    assume "\<exists>f'. poll (axios_get w sid) JNull 0 = Inr f' \<and> still_running f'"
    then obtain f' where "poll (axios_get w sid) JNull 0 = Inr f'" "still_running f'" by blast
    with assms(1-3) show ?thesis
      by (auto simp: getProfileDescription_try_def still_running_def)
  qed
qed

lemma try_trigger_rejected:
  assumes "handlesArray handles \<noteq> []"
    and "axios_post w (map x_url (take 20 (handlesArray handles)))
           = AxiosRejected m"
  shows "getProfileDescription_try w handles = Inl (Error m)"
  using assms by (simp add: getProfileDescription_try_def)

lemma getProfileDescription_empty:
  "handlesArray handles = [] \<Longrightarrow> getProfileDescription w handles = []"
  by (simp add: getProfileDescription_def getProfileDescription_try_def)

text \<open>
  Claim C4. \<open>getProfileDescription\<close> has no error result: whenever the body of its
  \<open>try\<close> throws, with whatever error, it returns one error entry per handle, and every
  such entry has \<open>canDm = true\<close> and status \<open>error\<close>. That is the result when the
  trigger call is rejected, and when none of the ten polls leaves the job in a terminal
  state (each is rejected, or answers \<open>null\<close> or \<open>running\<close>). The result has the length
  of the input in every case.
\<close>

theorem getProfileDescription_never_throws:
  "(\<forall>e. getProfileDescription_try w handles = Inl e \<longrightarrow>
        getProfileDescription w handles = map (\<lambda>h. Profile (api_error e)) (handlesArray handles))
   \<and> (\<forall>e. canDm (api_error e) \<and> p_status (api_error e) = ''error'')
   \<and> ((\<exists>m. axios_post w (map x_url (take 20 (handlesArray handles))) = AxiosRejected m)
      \<longrightarrow> (\<exists>e. getProfileDescription w handles
                 = map (\<lambda>h. Profile (api_error e)) (handlesArray handles)))
   \<and> ((\<exists>d sid. axios_post w (map x_url (take 20 (handlesArray handles))) = AxiosData d
               \<and> js_get d ''snapshot_id'' = Inr sid
               \<and> (\<forall>n. 1 \<le> n \<and> n \<le> 10 \<longrightarrow> not_terminal (axios_get w sid n)))
      \<longrightarrow> (\<exists>e. getProfileDescription w handles
                 = map (\<lambda>h. Profile (api_error e)) (handlesArray handles)))
   \<and> length (getProfileDescription w handles) = length (handlesArray handles)"
proof -
  have caught: "\<forall>e. getProfileDescription_try w handles = Inl e \<longrightarrow>
        getProfileDescription w handles = map (\<lambda>h. Profile (api_error e)) (handlesArray handles)"
    by (simp add: catch_all)
  have entry: "\<forall>e. canDm (api_error e) \<and> p_status (api_error e) = ''error''"
    by (simp add: api_error_def)
  have trigger: "\<exists>e. getProfileDescription w handles
                 = map (\<lambda>h. Profile (api_error e)) (handlesArray handles)"
    if "\<exists>m. axios_post w (map x_url (take 20 (handlesArray handles))) = AxiosRejected m"
  proof (cases "handlesArray handles = []")
    case True
    then show ?thesis by (simp add: getProfileDescription_empty)
  next
    case False
    from that obtain m where
      "axios_post w (map x_url (take 20 (handlesArray handles))) = AxiosRejected m" by blast
    with False have "getProfileDescription_try w handles = Inl (Error m)"
      by (intro try_trigger_rejected) simp_all
    then show ?thesis by (blast dest: catch_all)
  qed
  have polls: "\<exists>e. getProfileDescription w handles
                 = map (\<lambda>h. Profile (api_error e)) (handlesArray handles)"
    if "\<exists>d sid. axios_post w (map x_url (take 20 (handlesArray handles))) = AxiosData d
               \<and> js_get d ''snapshot_id'' = Inr sid
               \<and> (\<forall>n. 1 \<le> n \<and> n \<le> 10 \<longrightarrow> not_terminal (axios_get w sid n))"
  proof (cases "handlesArray handles = []")
    case True
    then show ?thesis by (simp add: getProfileDescription_empty)
  next
    case False
    from that obtain d sid where
      "axios_post w (map x_url (take 20 (handlesArray handles))) = AxiosData d"
      "js_get d ''snapshot_id'' = Inr sid"
      "\<forall>n. 1 \<le> n \<and> n \<le> 10 \<longrightarrow> not_terminal (axios_get w sid n)"
      by blast
    with False have "\<exists>e. getProfileDescription_try w handles = Inl e"
      by (intro try_never_terminal) simp_all
    then show ?thesis by (blast dest: catch_all)
  qed
  from caught entry trigger polls getProfileDescription_length show ?thesis by blast
qed

theorem getProfileDescription_never_throws_witness:
  "getProfileDescription (example_services\<lparr>axios_post := \<lambda>urls. AxiosRejected ''503''\<rparr>)
       (Many [''alice'', ''bob''])
     = [Profile (api_error (Error ''503'')), Profile (api_error (Error ''503''))]
   \<and> (\<exists>e. getProfileDescription
             (example_services\<lparr>axios_get := \<lambda>sid n. AxiosData (JObj [(''status'', JStr ''running'')])\<rparr>)
             (Many [''alice'', ''bob''])
           = [Profile (api_error e), Profile (api_error e)])"
proof -
  let ?down = "example_services\<lparr>axios_post := \<lambda>urls. AxiosRejected ''503''\<rparr>"
  let ?slow = "example_services\<lparr>axios_get := \<lambda>sid n. AxiosData (JObj [(''status'', JStr ''running'')])\<rparr>"
  let ?hs = "Many [''alice'', ''bob'']"
  have a: "getProfileDescription_try ?down ?hs = Inl (Error ''503'')"
    by (simp add: getProfileDescription_try_def example_services_def)
  have b: "\<exists>d sid. axios_post ?slow (map x_url (take 20 (handlesArray ?hs))) = AxiosData d
               \<and> js_get d ''snapshot_id'' = Inr sid
               \<and> (\<forall>n. 1 \<le> n \<and> n \<le> 10 \<longrightarrow> not_terminal (axios_get ?slow sid n))"
    by (simp add: example_services_def js_get_def not_terminal_def still_running_def)
  from a getProfileDescription_never_throws [of ?down ?hs]
  have "getProfileDescription ?down ?hs
      = map (\<lambda>h. Profile (api_error (Error ''503''))) (handlesArray ?hs)"
    by blast
  moreover from b getProfileDescription_never_throws [of ?slow ?hs]
  have "\<exists>e. getProfileDescription ?slow ?hs = map (\<lambda>h. Profile (api_error e)) (handlesArray ?hs)"
    by blast
  ultimately show ?thesis by simp
qed

text \<open>
  Claim C3 at a failing input. The snapshot holds rows for \<open>alice\<close> and \<open>bob\<close> and none
  for the third handle, \<open>constructor\<close>. \<open>profileMap\<close> is a plain object, so
  \<open>profileMap["constructor"]\<close> is the function it inherits from \<open>Object.prototype\<close>: the
  third element of the result is that function, not a not-found error entry.
\<close>

theorem getProfileDescription_inherited_key:
  "getProfileDescription example_services (Many [''alice'', ''bob'', ''constructor''])
     = [Profile \<lparr>p_status = ''success'', canDm = True,
                  p_description = JStr ''Founder of Acme'', p_reason = ''DMs are open''\<rparr>,
        Profile \<lparr>p_status = ''success'', canDm = True,
                  p_description = JStr [], p_reason = ''DMs are open''\<rparr>,
        BuiltinFunction ''constructor'']"
  by (simp add: getProfileDescription_def getProfileDescription_try_def example_services_def
        js_get_def still_running_def maxAttempts_def extractHandle_def handle_char_def
        map_get_def map_set_def empty_map_def field_of_def Object_prototype_functions_def
        x_url_def poll.simps)

text \<open>What does hold of the positions of the result: it always has the length of the
  input.\<close>

theorem getProfileDescription_length_preserved:
  "length (getProfileDescription w (Many hs)) = length hs"
  using getProfileDescription_length [of w "Many hs"] by simp

lemma build_map_own:
  "build_map rows m = Inr m' \<Longrightarrow> map_of (own m) h = None \<Longrightarrow>
   (\<forall>row \<in> set rows. \<forall>u. js_get row ''url'' = Inr u \<longrightarrow> extractHandle u \<noteq> Inr (JStr h)) \<Longrightarrow>
   map_of (own m') h = None"
proof (induction rows arbitrary: m)
  case Nil
  then show ?case by simp
next
  case (Cons profile rows)
  from Cons.prems show ?case
    by (auto simp: map_set_def split: sum.splits jsval.splits if_splits intro!: Cons.IH)
qed

lemma map_get_absent:
  "map_of (own m) h = None \<Longrightarrow> h \<notin> set reserved_keys \<Longrightarrow> map_get m h = Absent"
  by (auto simp: map_get_def reserved_keys_def field_of_def split: option.splits)

text \<open>
  And when the snapshot is an array of rows, a requested handle that no row carries,
  and that is not a key every plain object answers to, gets the not-found error entry
  in its position.
\<close>

theorem getProfileDescription_not_found:
  assumes "hs \<noteq> []"
    and "axios_post w (map x_url (take 20 hs)) = AxiosData d"
    and "js_get d ''snapshot_id'' = Inr sid"
    and "poll (axios_get w sid) JNull 0 = Inr (JArr rows)"
    and "build_map rows empty_map = Inr pm"
    and "i < length hs"
    and "\<forall>row \<in> set rows. \<forall>u. js_get row ''url'' = Inr u \<longrightarrow> extractHandle u \<noteq> Inr (JStr (hs ! i))"
    and "hs ! i \<notin> set reserved_keys"
  shows "getProfileDescription w (Many hs) ! i = Profile not_found"
proof -
  have "map_of (own pm) (hs ! i) = None"
    using assms(5) _ assms(7) by (rule build_map_own) (simp add: empty_map_def)
  then have "map_get pm (hs ! i) = Absent"
    using assms(8) by (rule map_get_absent)
  with assms(1-6) show ?thesis
    by (simp add: getProfileDescription_def getProfileDescription_try_def js_get_def)
qed

theorem getProfileDescription_not_found_witness:
  "getProfileDescription example_services (Many [''alice'', ''carol'', ''bob'']) ! 1
     = Profile not_found"
proof -
  let ?rows = "[JObj [(''url'', JStr ''https://x.com/alice''), (''biography'', JStr ''Founder of Acme'')],
                JObj [(''url'', JStr ''https://x.com/bob''), (''biography'', JNull)]]"
  let ?hs = "[''alice'', ''carol'', ''bob'']"
  have 1: "?hs \<noteq> []" by simp
  have 2: "axios_post example_services (map x_url (take 20 ?hs))
             = AxiosData (JObj [(''snapshot_id'', JStr ''s_1'')])"
    by (simp add: example_services_def)
  have 3: "js_get (JObj [(''snapshot_id'', JStr ''s_1'')]) ''snapshot_id'' = Inr (JStr ''s_1'')"
    by (simp add: js_get_def)
  have 4: "poll (axios_get example_services (JStr ''s_1'')) JNull 0 = Inr (JArr ?rows)"
    by (simp add: poll.simps example_services_def still_running_def maxAttempts_def js_get_def)
  obtain pm where 5: "build_map ?rows empty_map = Inr pm"
    by (simp add: js_get_def extractHandle_def handle_char_def)
  have 6: "(1::nat) < length ?hs" by simp
  have 7: "\<forall>row \<in> set ?rows. \<forall>u. js_get row ''url'' = Inr u
             \<longrightarrow> extractHandle u \<noteq> Inr (JStr (?hs ! 1))"
    by (simp add: js_get_def extractHandle_def handle_char_def)
  have 8: "?hs ! 1 \<notin> set reserved_keys"
    by (simp add: reserved_keys_def Object_prototype_functions_def)
  from getProfileDescription_not_found [OF 1 2 3 4 5 6 7 8] show ?thesis .
qed

section \<open>Properties of the Batch Orchestrator\<close>

lemma first_loop_record_key:
  "first_loop_record item outcome t = Some r \<Longrightarrow> result_key r = input_key item"
  by (auto simp: first_loop_record_def early_record_def result_key_def input_key_def
           split: sum.splits search_outcome.splits)

lemma first_loop_record_status:
  "first_loop_record item outcome t = Some r \<Longrightarrow>
   (status r = ''failed'' \<or> status r = ''error'') \<and> dm_status r = None"
  by (auto simp: first_loop_record_def early_record_def
           split: sum.splits search_outcome.splits)

lemma first_loop_record_None:
  "first_loop_record item outcome t = None \<longleftrightarrow> (\<exists>h url. outcome = Inr (Pending h url))"
  by (auto simp: first_loop_record_def split: sum.splits search_outcome.splits)

lemma first_loop_step:
  "first_loop w k (item # items) (rs, hs) =
     (if held w (k, item)
      then first_loop w (Suc k) items
             (rs, hs @ [(item, (case search_item w k item of Inr (Pending h url) \<Rightarrow> h),
                               (case search_item w k item of Inr (Pending h url) \<Rightarrow> url))])
      else first_loop w (Suc k) items
             (rs @ [the (first_loop_record item (search_item w k item) (now w (length rs)))], hs))"
  by (auto simp: held_def first_loop_record_def split: sum.splits search_outcome.splits)

lemma first_loop_results:
  "map result_key (fst (first_loop w k items (rs, hs)))
     = map result_key rs @ map (input_key \<circ> snd) (filter (\<lambda>p. \<not> held w p) (enumerate k items))"
proof (induction items arbitrary: k rs hs)
  case Nil
  then show ?case by simp
next
  case (Cons item items)
  show ?case
  proof (cases "held w (k, item)")
    case True
    then show ?thesis
      by (simp add: first_loop_step Cons.IH del: first_loop.simps)
  next
    case False
    then obtain r where r: "first_loop_record item (search_item w k item) (now w (length rs)) = Some r"
      using first_loop_record_None [of item "search_item w k item" "now w (length rs)"]
      by (auto simp: held_def split: sum.splits search_outcome.splits)
    with False show ?thesis
      by (simp add: first_loop_step Cons.IH first_loop_record_key [OF r] del: first_loop.simps)
  qed
qed

lemma first_loop_held:
  "map fst (snd (first_loop w k items (rs, hs)))
     = map fst hs @ map snd (filter (held w) (enumerate k items))"
proof (induction items arbitrary: k rs hs)
  case Nil
  then show ?case by simp
next
  case (Cons item items)
  show ?case
    by (cases "held w (k, item)") (simp_all add: first_loop_step Cons.IH del: first_loop.simps)
qed

lemma first_loop_keeps: "set rs \<subseteq> set (fst (first_loop w k items (rs, hs)))"
proof (induction items arbitrary: k rs hs)
  case Nil
  then show ?case by simp
next
  case (Cons item items)
  show ?case
  proof (cases "held w (k, item)")
    case True
    then show ?thesis
      using Cons.IH by (simp add: first_loop_step del: first_loop.simps)
  next
    case False
    have "set rs \<subseteq> set (rs @ [the (first_loop_record item (search_item w k item) (now w (length rs)))])"
      by auto
    also have "\<dots> \<subseteq> set (fst (first_loop w (Suc k) items
        (rs @ [the (first_loop_record item (search_item w k item) (now w (length rs)))], hs)))"
      by (rule Cons.IH)
    finally show ?thesis
      using False by (simp add: first_loop_step del: first_loop.simps)
  qed
qed

lemma first_loop_statuses:
  "r \<in> set (fst (first_loop w k items (rs, hs))) \<Longrightarrow>
   r \<in> set rs \<or> ((status r = ''failed'' \<or> status r = ''error'') \<and> dm_status r = None)"
proof (induction items arbitrary: k rs hs)
  case Nil
  then show ?case by simp
next
  case (Cons item items)
  show ?case
  proof (cases "held w (k, item)")
    case True
    with Cons.prems Cons.IH show ?thesis
      by (simp add: first_loop_step del: first_loop.simps)
  next
    case False
    then obtain r' where
      r': "first_loop_record item (search_item w k item) (now w (length rs)) = Some r'"
      using first_loop_record_None [of item "search_item w k item" "now w (length rs)"]
      by (auto simp: held_def split: sum.splits search_outcome.splits)
    from Cons.prems False r'
    have "r \<in> set (fst (first_loop w (Suc k) items (rs @ [r'], hs)))"
      by (simp add: first_loop_step del: first_loop.simps)
    then have "r \<in> set (rs @ [r'])
        \<or> ((status r = ''failed'' \<or> status r = ''error'') \<and> dm_status r = None)"
      by (rule Cons.IH)
    with first_loop_record_status [OF r'] show ?thesis by auto
  qed
qed

lemma first_loop_member:
  "j < length items \<Longrightarrow> \<not> held w (k + j, items ! j) \<Longrightarrow>
   \<exists>t r. first_loop_record (items ! j) (search_item w (k + j) (items ! j)) t = Some r
        \<and> r \<in> set (fst (first_loop w k items (rs, hs)))"
proof (induction items arbitrary: k j rs hs)
  case Nil
  then show ?case by simp
next
  case (Cons item items)
  show ?case
  proof (cases j)
    case 0
    with Cons.prems have nh: "\<not> held w (k, item)" by simp
    then obtain r where
      r: "first_loop_record item (search_item w k item) (now w (length rs)) = Some r"
      using first_loop_record_None [of item "search_item w k item" "now w (length rs)"]
      by (auto simp: held_def split: sum.splits search_outcome.splits)
    have "r \<in> set (rs @ [r])" by simp
    then have "r \<in> set (fst (first_loop w (Suc k) items (rs @ [r], hs)))"
      using first_loop_keeps by blast
    with nh r 0 show ?thesis
      by (auto simp add: first_loop_step simp del: first_loop.simps)
  next
    case (Suc j')
    with Cons.prems have j': "j' < length items" "\<not> held w (Suc k + j', items ! j')"
      by simp_all
    from Cons.IH [OF j']
    have "\<exists>t r. first_loop_record (items ! j') (search_item w (Suc k + j') (items ! j')) t = Some r
        \<and> r \<in> set (fst (first_loop w (Suc k) items st))" for st
      by (cases st) simp
    then show ?thesis
      using Suc by (cases "held w (k, item)") (simp_all add: first_loop_step del: first_loop.simps)
  qed
qed

lemma second_loop_record_key:
  "result_key (second_loop_record w pda i (item, h, url) t) = input_key item"
  by (simp add: second_loop_record_def result_key_def input_key_def Let_def split: sum.splits)

lemma second_loop_record_status:
  "(status (second_loop_record w pda i hi t) = ''processed''
      \<and> dm_status (second_loop_record w pda i hi t) = Some ''open'')
   \<or> (status (second_loop_record w pda i hi t) = ''error''
      \<and> dm_status (second_loop_record w pda i hi t) = None)"
  by (cases hi) (simp add: second_loop_record_def Let_def split: sum.splits)

lemma second_loop_results:
  "map result_key (second_loop w pda i hs rs) = map result_key rs @ map (input_key \<circ> fst) hs"
proof (induction hs arbitrary: i rs)
  case Nil
  then show ?case by simp
next
  case (Cons hi hs)
  obtain item h url where "hi = (item, h, url)" by (cases hi)
  then show ?case by (simp add: Cons.IH second_loop_record_key)
qed

lemma second_loop_statuses:
  "r \<in> set (second_loop w pda i hs rs) \<Longrightarrow>
   r \<in> set rs \<or> (status r = ''processed'' \<and> dm_status r = Some ''open'')
     \<or> (status r = ''error'' \<and> dm_status r = None)"
proof (induction hs arbitrary: i rs)
  case Nil
  then show ?case by simp
next
  case (Cons hi hs)
  from Cons.prems
  have "r \<in> set (second_loop w pda (Suc i) hs
                  (rs @ [second_loop_record w pda i hi (now w (length rs))]))"
    by simp
  then have "r \<in> set (rs @ [second_loop_record w pda i hi (now w (length rs))])
     \<or> (status r = ''processed'' \<and> dm_status r = Some ''open'')
     \<or> (status r = ''error'' \<and> dm_status r = None)"
    by (rule Cons.IH)
  with second_loop_record_status [of w pda i hi "now w (length rs)"] show ?case by auto
qed

lemma second_loop_keeps: "set rs \<subseteq> set (second_loop w pda i hs rs)"
proof (induction hs arbitrary: i rs)
  case Nil
  then show ?case by simp
next
  case (Cons hi hs)
  have "set rs \<subseteq> set (rs @ [second_loop_record w pda i hi (now w (length rs))])" by auto
  also have "\<dots> \<subseteq> set (second_loop w pda (Suc i) hs
                  (rs @ [second_loop_record w pda i hi (now w (length rs))]))"
    by (rule Cons.IH)
  finally show ?case by simp
qed

lemma processBatch_unfold:
  "processBatch w batch b =
     (if snd (first_loop w 0 batch ([], [])) = [] then fst (first_loop w 0 batch ([], []))
      else second_loop w
             (getProfileDescription w (Many (map (\<lambda>(item, h, url). h) (snd (first_loop w 0 batch ([], []))))))
             0 (snd (first_loop w 0 batch ([], []))) (fst (first_loop w 0 batch ([], []))))"
  by (simp add: processBatch_def Let_def split: prod.splits)

lemma processBatch_order:
  "map result_key (processBatch w batch b)
     = map (input_key \<circ> snd) (filter (\<lambda>p. \<not> held w p) (enumerate 0 batch))
       @ map (input_key \<circ> snd) (filter (held w) (enumerate 0 batch))"
proof -
  have hs: "map (input_key \<circ> fst) (snd (first_loop w 0 batch ([], [])))
      = map (input_key \<circ> snd) (filter (held w) (enumerate 0 batch))"
    using first_loop_held [of w 0 batch "[]" "[]", THEN arg_cong, of "map input_key"]
    by simp
  show ?thesis
  proof (cases "snd (first_loop w 0 batch ([], [])) = []")
    case True
    with hs have "map (input_key \<circ> snd) (filter (held w) (enumerate 0 batch)) = []" by simp
    with True show ?thesis
      by (simp add: processBatch_unfold first_loop_results)
  next
    case False
    then show ?thesis
      by (simp add: processBatch_unfold second_loop_results first_loop_results hs)
  qed
qed

lemma processBatch_statuses:
  assumes "r \<in> set (processBatch w batch b)"
  shows "((status r = ''failed'' \<or> status r = ''error'') \<and> dm_status r = None)
     \<or> (status r = ''processed'' \<and> dm_status r = Some ''open'')"
proof (cases "snd (first_loop w 0 batch ([], [])) = []")
  case True
  with assms have "r \<in> set (fst (first_loop w 0 batch ([], [])))"
    by (simp add: processBatch_unfold)
  from first_loop_statuses [OF this] show ?thesis by simp
next
  case False
  with assms have "r \<in> set (second_loop w
             (getProfileDescription w (Many (map (\<lambda>(item, h, url). h) (snd (first_loop w 0 batch ([], []))))))
             0 (snd (first_loop w 0 batch ([], []))) (fst (first_loop w 0 batch ([], []))))"
    by (simp add: processBatch_unfold)
  from second_loop_statuses [OF this] first_loop_statuses [of r w 0 batch "[]" "[]"]
  show ?thesis by auto
qed

lemma processBatch_early_member:
  assumes "k < length batch" "\<not> held w (k, batch ! k)"
  shows "\<exists>t r. first_loop_record (batch ! k) (search_item w k (batch ! k)) t = Some r
        \<and> r \<in> set (processBatch w batch b)"
proof -
  from first_loop_member [of k batch w 0 "[]" "[]"] assms
  obtain t r where r: "first_loop_record (batch ! k) (search_item w k (batch ! k)) t = Some r"
    "r \<in> set (fst (first_loop w 0 batch ([], [])))"
    by auto
  have "set (fst (first_loop w 0 batch ([], []))) \<subseteq> set (processBatch w batch b)"
    by (simp add: processBatch_unfold second_loop_keeps)
  with r show ?thesis by blast
qed

lemma processBatch_length: "length (processBatch w batch b) = length batch"
proof -
  have "length (processBatch w batch b) = length (map result_key (processBatch w batch b))"
    by simp
  also have "\<dots> = length (filter (\<lambda>p. \<not> held w p) (enumerate 0 batch))
                  + length (filter (held w) (enumerate 0 batch))"
    by (simp only: processBatch_order length_append length_map)
  also have "\<dots> = length (enumerate 0 batch)"
    using sum_length_filter_compl [of "held w" "enumerate 0 batch"] by simp
  finally show ?thesis by simp
qed

lemma processBatch_mset:
  "mset (map result_key (processBatch w batch b)) = mset (map input_key batch)"
proof -
  have "mset (map result_key (processBatch w batch b))
      = image_mset (input_key \<circ> snd) (filter_mset (\<lambda>p. \<not> held w p) (mset (enumerate 0 batch)))
        + image_mset (input_key \<circ> snd) (filter_mset (held w) (mset (enumerate 0 batch)))"
    by (simp only: processBatch_order mset_append mset_map mset_filter)
  also have "\<dots> = image_mset (input_key \<circ> snd) (mset (enumerate 0 batch))"
    by (simp add: image_mset_union [symmetric] add.commute del: image_mset_union)
  also have "\<dots> = mset (map (input_key \<circ> snd) (enumerate 0 batch))"
    by simp
  also have "\<dots> = mset (map input_key (map snd (enumerate 0 batch)))"
    by (simp only: map_map)
  also have "\<dots> = mset (map input_key batch)"
    by (simp only: map_snd_enumerate)
  finally show ?thesis .
qed

lemma concat_make_batches: "concat (make_batches xs) = xs"
proof (induction xs rule: make_batches.induct)
  case (1 xs)
  show ?case
  proof (cases "xs = []")
    case True
    then show ?thesis by (simp add: make_batches.simps)
  next
    case False
    with "1.IH" show ?thesis
      by (subst make_batches.simps) simp
  qed
qed

lemma batch_loop_prefix:
  "\<exists>n. n \<le> length bs
     \<and> mset (map result_key (fst (batch_loop world flag i bs acc)))
         = mset (map result_key acc) + mset (map input_key (concat (take n bs)))"
proof (induction bs arbitrary: i acc)
  case Nil
  then show ?case by simp
next
  case (Cons batch bs)
  show ?case
  proof (cases "flag i")
    case False
    then show ?thesis by (intro exI [of _ 0]) simp
  next
    case True
    from Cons.IH [of "Suc i" "acc @ processBatch (world i) batch i"]
    obtain n where n: "n \<le> length bs"
      "mset (map result_key (fst (batch_loop world flag (Suc i) bs (acc @ processBatch (world i) batch i))))
         = mset (map result_key (acc @ processBatch (world i) batch i))
           + mset (map input_key (concat (take n bs)))"
      by blast
    with True show ?thesis
      by (intro exI [of _ "Suc n"]) (simp add: processBatch_mset [simplified])
  qed
qed

lemma batch_loop_complete:
  "(\<forall>j. flag j) \<Longrightarrow>
   mset (map result_key (fst (batch_loop world flag i bs acc)))
     = mset (map result_key acc) + mset (map input_key (concat bs))"
  by (induction bs arbitrary: i acc) (simp_all add: processBatch_mset [simplified])

text \<open>
  Claim C1. A batch yields exactly one result per input record: the results are as
  many as the records, the fields that name the record (name, company, email) are,
  counted with multiplicity, those of the input records, and every status is
  \<open>failed\<close>, \<open>error\<close> or \<open>processed\<close>; this holds for every behaviour of the search
  proxy, the dataset API, the classifier and the URL parser, so at whichever stage a
  record fails. Over the batches of a run the accumulated results are those of the
  records of the batches processed before an interruption, and of all records when the
  run is not interrupted.
\<close>

theorem processBatch_one_result_per_record:
  "length (processBatch w batch b) = length batch
   \<and> mset (map result_key (processBatch w batch b)) = mset (map input_key batch)
   \<and> (\<forall>r \<in> set (processBatch w batch b). status r \<in> {''failed'', ''error'', ''processed''})
   \<and> (\<exists>n. n \<le> length (make_batches records)
         \<and> mset (map result_key (fst (batch_loop world isProcessing 0 (make_batches records) [])))
             = mset (map input_key (concat (take n (make_batches records)))))
   \<and> ((\<forall>j. isProcessing j) \<longrightarrow>
         mset (map result_key (fst (batch_loop world isProcessing 0 (make_batches records) [])))
           = mset (map input_key records))"
proof -
  have statuses: "\<forall>r \<in> set (processBatch w batch b). status r \<in> {''failed'', ''error'', ''processed''}"
    using processBatch_statuses [of _ w batch b] by blast
  have window: "\<exists>n. n \<le> length (make_batches records)
         \<and> mset (map result_key (fst (batch_loop world isProcessing 0 (make_batches records) [])))
             = mset (map input_key (concat (take n (make_batches records))))"
    using batch_loop_prefix [of "make_batches records" world isProcessing 0 "[]"] by simp
  have complete: "mset (map result_key (fst (batch_loop world isProcessing 0 (make_batches records) [])))
           = mset (map input_key records)" if "\<forall>j. isProcessing j"
    using batch_loop_complete [OF that, of world 0 "make_batches records" "[]"]
    by (simp add: concat_make_batches)
  from processBatch_length processBatch_mset statuses window complete show ?thesis by blast
qed

lemmas batch_eval =
  processBatch_def search_item_def search_url_def first_loop_record_def early_record_def
  second_loop_record_def description_at_def analyzeFounderProfile_def prompt_for_def
  processSearchResults_def x_link_test_def link_of_def
  extractMainProfileLink_def plain_URL_eval
  getProfileDescription_def getProfileDescription_try_def example_services_def
  js_get_def still_running_def maxAttempts_def extractHandle_def handle_char_def
  map_get_def map_set_def empty_map_def field_of_def Object_prototype_functions_def
  x_url_def poll.simps not_found_def api_error_def
  fetchWithRetry.simps attempt_try_def zero_results_def has_organic_def RETRY_CONFIG_def
  alice_def jane_def sublist_Cons_right

lemma example_batch:
  "processBatch example_services [alice, jane] 0 =
     [\<lparr>name = ''Jane Doe'', company = ''Acme'', r_email = ''jane@acme.test'',
        handle = None, profile_url = None, dm_status = None,
        description = None, status = ''failed'',
        reason = Some ''No Twitter profile found'', role = None,
        rank = None, confidence_reason = None,
        processed_at = ''2025-01-01T00:00:00.000Z''\<rparr>,
      \<lparr>name = ''Alice Roe'', company = ''Initech'',
        r_email = ''alice@initech.test'', handle = Some ''alice'',
        profile_url = Some (JStr ''https://x.com/alice''),
        dm_status = Some ''open'',
        description = Some (JStr ''Founder of Acme''),
        status = ''processed'', reason = None,
        role = Some (JStr ''Founder''), rank = Some (JNum 9),
        confidence_reason = Some (JStr ''bio''),
        processed_at = ''2025-01-01T00:00:00.000Z''\<rparr>]"
  by (simp add: batch_eval)

theorem processBatch_one_result_per_record_witness:
  "length (processBatch example_services [alice, jane] 0) = 2
   \<and> mset (map result_key (processBatch example_services [alice, jane] 0))
       = {#input_key alice, input_key jane#}
   \<and> status (processBatch example_services [alice, jane] 0 ! 0) \<in> {''failed'', ''error'', ''processed''}
   \<and> status (processBatch example_services [alice, jane] 0 ! 1) \<in> {''failed'', ''error'', ''processed''}
   \<and> mset (map result_key
         (fst (batch_loop (\<lambda>i. example_services) (\<lambda>i. True) 0 (make_batches [alice, jane]) [])))
       = {#input_key alice, input_key jane#}"
proof -
  note inst = processBatch_one_result_per_record
    [of example_services "[alice, jane]" 0 "[alice, jane]" "\<lambda>i. example_services" "\<lambda>i. True"]
  from inst have len: "length (processBatch example_services [alice, jane] 0) = 2" by simp
  from inst have ms: "mset (map result_key (processBatch example_services [alice, jane] 0))
       = {#input_key alice, input_key jane#}" by simp
  from inst have all: "\<forall>r \<in> set (processBatch example_services [alice, jane] 0).
      status r \<in> {''failed'', ''error'', ''processed''}" by blast
  from len have "processBatch example_services [alice, jane] 0 ! 0
        \<in> set (processBatch example_services [alice, jane] 0)"
    and "processBatch example_services [alice, jane] 0 ! 1
        \<in> set (processBatch example_services [alice, jane] 0)"
    by simp_all
  with all have st:
    "status (processBatch example_services [alice, jane] 0 ! 0) \<in> {''failed'', ''error'', ''processed''}"
    "status (processBatch example_services [alice, jane] 0 ! 1) \<in> {''failed'', ''error'', ''processed''}"
    by blast+
  from inst have run: "mset (map result_key
         (fst (batch_loop (\<lambda>i. example_services) (\<lambda>i. True) 0 (make_batches [alice, jane]) [])))
       = {#input_key alice, input_key jane#}" by simp
  from len ms st run show ?thesis by blast
qed

lemmas poller_eval =
  getProfileDescription_def getProfileDescription_try_def example_services_def
  js_get_def still_running_def maxAttempts_def extractHandle_def handle_char_def
  map_get_def map_set_def empty_map_def field_of_def Object_prototype_functions_def
  x_url_def poll.simps

lemma search_item_zero_results:
  "returned (fetchWithRetry (request w k) (search_url item) 1) = JObj [(''organic'', JArr [])] \<Longrightarrow>
   search_item w k item = Inr NoProfile"
  by (simp add: search_item_def processSearchResults_def js_get_def extractMainProfileLink_def)

lemma search_item_null:
  "returned (fetchWithRetry (request w k) (search_url item) 1) = JNull \<Longrightarrow>
   search_item w k item = Inr NoSearchResults"
  by (simp add: search_item_def)

lemma fetch_zero_marker:
  "req url 1 = Responded (Text_of j) \<Longrightarrow> zero_results j \<Longrightarrow>
   returned (fetchWithRetry req url 1) = JObj [(''organic'', JArr [])]"
  by (subst fetchWithRetry.simps) (simp add: attempt_try_def)

text \<open>
  Claim C5, as amended. A record whose search returns the zero-results payload gets a
  result with status \<open>failed\<close> and reason \<open>No Twitter profile found\<close>: the payload is
  an empty result set, not \<open>null\<close>, so the record passes the first test and stops at
  the second. The reason \<open>No search results found\<close> is given when the fetcher returns
  \<open>null\<close>. The fetcher returns the zero-results payload when the first response
  carries the marker.
\<close>

theorem processBatch_zero_results:
  "(\<forall>k. k < length batch
        \<and> returned (fetchWithRetry (request w k) (search_url (batch ! k)) 1) = JObj [(''organic'', JArr [])]
      \<longrightarrow> (\<exists>t. early_record (batch ! k) ''failed'' ''No Twitter profile found'' None t
                 \<in> set (processBatch w batch b)))
   \<and> (\<forall>k. k < length batch
        \<and> returned (fetchWithRetry (request w k) (search_url (batch ! k)) 1) = JNull
      \<longrightarrow> (\<exists>t. early_record (batch ! k) ''failed'' ''No search results found'' None t
                 \<in> set (processBatch w batch b)))
   \<and> (\<forall>req url j. req url 1 = Responded (Text_of j) \<and> zero_results j
      \<longrightarrow> returned (fetchWithRetry req url 1) = JObj [(''organic'', JArr [])])"
proof -
  have zero: "\<exists>t. early_record (batch ! k) ''failed'' ''No Twitter profile found'' None t
                 \<in> set (processBatch w batch b)"
    if "k < length batch
        \<and> returned (fetchWithRetry (request w k) (search_url (batch ! k)) 1) = JObj [(''organic'', JArr [])]"
    for k
  proof -
    from that have o: "search_item w k (batch ! k) = Inr NoProfile"
      by (simp add: search_item_zero_results)
    then have "\<not> held w (k, batch ! k)" by (simp add: held_def)
    with that processBatch_early_member [of k batch w b] o show ?thesis
      by (auto simp: first_loop_record_def)
  qed
  have null: "\<exists>t. early_record (batch ! k) ''failed'' ''No search results found'' None t
                 \<in> set (processBatch w batch b)"
    if "k < length batch
        \<and> returned (fetchWithRetry (request w k) (search_url (batch ! k)) 1) = JNull"
    for k
  proof -
    from that have o: "search_item w k (batch ! k) = Inr NoSearchResults"
      by (simp add: search_item_null)
    then have "\<not> held w (k, batch ! k)" by (simp add: held_def)
    with that processBatch_early_member [of k batch w b] o show ?thesis
      by (auto simp: first_loop_record_def)
  qed
  from zero null fetch_zero_marker show ?thesis by blast
qed

theorem processBatch_zero_results_witness:
  "(\<exists>t. early_record jane ''failed'' ''No Twitter profile found'' None t
        \<in> set (processBatch example_services [alice, jane] 0))
   \<and> (\<exists>t. early_record jane ''failed'' ''No search results found'' None t
        \<in> set (processBatch (example_services\<lparr>request := \<lambda>k url attempt. Rejected ''timeout''\<rparr>)
                 [jane] 0))"
proof -
  let ?dead = "example_services\<lparr>request := \<lambda>k url attempt. Rejected ''timeout''\<rparr>"
  have a: "(1::nat) < length [alice, jane]
        \<and> returned (fetchWithRetry (request example_services 1) (search_url ([alice, jane] ! 1)) 1)
            = JObj [(''organic'', JArr [])]"
    by (simp add: fetchWithRetry.simps attempt_try_def zero_results_def js_get_def
          example_services_def)
  have b: "(0::nat) < length [jane]
        \<and> returned (fetchWithRetry (request ?dead 0) (search_url ([jane] ! 0)) 1) = JNull"
    by (simp add: fetchWithRetry.simps attempt_try_def RETRY_CONFIG_def)
  from a processBatch_zero_results [of "[alice, jane]" example_services 0]
  have "\<exists>t. early_record ([alice, jane] ! 1) ''failed'' ''No Twitter profile found'' None t
        \<in> set (processBatch example_services [alice, jane] 0)"
    by blast
  moreover from b processBatch_zero_results [of "[jane]" ?dead 0]
  have "\<exists>t. early_record ([jane] ! 0) ''failed'' ''No search results found'' None t
        \<in> set (processBatch ?dead [jane] 0)"
    by blast
  ultimately show ?thesis by simp
qed

text \<open>
  The claim as stated fails on the specification's own scenario: the only record is
  Jane Doe of Acme and the search answers with the zero-results marker; the result has
  status \<open>failed\<close> with reason \<open>No Twitter profile found\<close>.
\<close>

theorem processBatch_zero_results_counterexample:
  "map (\<lambda>r. (name r, company r, status r, reason r))
     (processBatch
        (example_services\<lparr>request := \<lambda>k url attempt.
           Responded (Text_of (JObj [(''general'', JObj [(''results_cnt'', JNum 0)])]))\<rparr>)
        [jane] 0)
   = [(''Jane Doe'', ''Acme'', ''failed'', Some ''No Twitter profile found'')]"
  by (simp add: batch_eval)

lemma filter_partition_id:
  "(\<forall>i j. i < j \<and> j < length xs \<and> Q (xs ! i) \<longrightarrow> Q (xs ! j)) \<Longrightarrow>
   filter (\<lambda>x. \<not> Q x) xs @ filter Q xs = xs"
proof (induction xs)
  case Nil
  then show ?case by simp
next
  case (Cons x xs)
  have tail: "\<forall>i j. i < j \<and> j < length xs \<and> Q (xs ! i) \<longrightarrow> Q (xs ! j)"
  proof (intro allI impI)
    fix i j
    assume "i < j \<and> j < length xs \<and> Q (xs ! i)"
    then have "Suc i < Suc j \<and> Suc j < length (x # xs) \<and> Q ((x # xs) ! Suc i)" by simp
    with Cons.prems have "Q ((x # xs) ! Suc j)" by blast
    then show "Q (xs ! j)" by simp
  qed
  show ?case
  proof (cases "Q x")
    case True
    have "Q y" if "y \<in> set xs" for y
    proof -
      from that obtain k where k: "k < length xs" "xs ! k = y" by (auto simp: in_set_conv_nth)
      then have "0 < Suc k \<and> Suc k < length (x # xs) \<and> Q ((x # xs) ! 0)" using True by simp
      with Cons.prems have "Q ((x # xs) ! Suc k)" by blast
      with k show ?thesis by simp
    qed
    then have "filter (\<lambda>x. \<not> Q x) xs = []" "filter Q xs = xs"
      by (simp_all add: filter_empty_conv)
    with True show ?thesis by simp
  next
    case False
    with Cons.IH [OF tail] show ?thesis by simp
  qed
qed

lemma processBatch_order_kept:
  assumes "\<forall>i j. i < j \<and> j < length batch \<and> held w (i, batch ! i) \<longrightarrow> held w (j, batch ! j)"
  shows "map result_key (processBatch w batch b) = map input_key batch"
proof -
  have "\<forall>i j. i < j \<and> j < length (enumerate 0 batch) \<and> held w (enumerate 0 batch ! i)
          \<longrightarrow> held w (enumerate 0 batch ! j)"
  proof (intro allI impI)
    fix i j
    assume ij: "i < j \<and> j < length (enumerate 0 batch) \<and> held w (enumerate 0 batch ! i)"
    then have "i < length batch" "j < length batch" by simp_all
    with ij assms show "held w (enumerate 0 batch ! j)"
      by (simp add: nth_enumerate_eq)
  qed
  then have "filter (\<lambda>p. \<not> held w p) (enumerate 0 batch) @ filter (held w) (enumerate 0 batch)
      = enumerate 0 batch"
    by (rule filter_partition_id)
  then have "map (input_key \<circ> snd) (filter (\<lambda>p. \<not> held w p) (enumerate 0 batch))
        @ map (input_key \<circ> snd) (filter (held w) (enumerate 0 batch))
      = map (input_key \<circ> snd) (enumerate 0 batch)"
    by (simp only: map_append [symmetric])
  also have "\<dots> = map input_key batch"
    by (simp only: map_map [symmetric] map_snd_enumerate)
  finally show ?thesis by (simp only: processBatch_order)
qed

text \<open>
  Claim C6, as amended. The results of a batch are, first, those of the records that
  stopped in the first loop (no search result, no profile, no handle, or an error), in
  input order, and then those of the records held for handle resolution, in input
  order. So the input order is kept within each of the two groups; and it is kept in
  the whole batch when no held record precedes a record that stopped in the first
  loop, in particular when all records of the batch belong to one group.
\<close>

theorem processBatch_order_of_results:
  "map result_key (processBatch w batch b)
     = map (input_key \<circ> snd) (filter (\<lambda>p. \<not> held w p) (enumerate 0 batch))
       @ map (input_key \<circ> snd) (filter (held w) (enumerate 0 batch))
   \<and> ((\<forall>i j. i < j \<and> j < length batch \<and> held w (i, batch ! i) \<longrightarrow> held w (j, batch ! j))
        \<longrightarrow> map result_key (processBatch w batch b) = map input_key batch)
   \<and> ((\<forall>p \<in> set (enumerate 0 batch). held w p) \<or> (\<forall>p \<in> set (enumerate 0 batch). \<not> held w p)
        \<longrightarrow> map result_key (processBatch w batch b) = map input_key batch)"
proof -
  have one_group: "map result_key (processBatch w batch b) = map input_key batch"
    if "(\<forall>p \<in> set (enumerate 0 batch). held w p) \<or> (\<forall>p \<in> set (enumerate 0 batch). \<not> held w p)"
  proof -
    have "\<forall>i j. i < j \<and> j < length batch \<and> held w (i, batch ! i) \<longrightarrow> held w (j, batch ! j)"
    proof (intro allI impI)
      fix i j
      assume ij: "i < j \<and> j < length batch \<and> held w (i, batch ! i)"
      then have "(i, batch ! i) \<in> set (enumerate 0 batch)" "(j, batch ! j) \<in> set (enumerate 0 batch)"
        by (simp_all add: in_set_enumerate_eq)
      with that ij show "held w (j, batch ! j)" by blast
    qed
    then show ?thesis by (rule processBatch_order_kept)
  qed
  from processBatch_order processBatch_order_kept one_group show ?thesis by blast
qed

lemma example_held:
  "held example_services (0, alice)" "\<not> held example_services (Suc 0, jane)"
  by (simp_all add: held_def batch_eval)

lemma example_not_held:
  "\<not> held (example_services\<lparr>request := \<lambda>k url attempt. Rejected ''timeout''\<rparr>) (k, item)"
  by (simp add: held_def search_item_def fetchWithRetry.simps attempt_try_def RETRY_CONFIG_def)

lemma example_swapped:
  "\<not> held (example_services\<lparr>request := \<lambda>k. request example_services (Suc 0 - k)\<rparr>) (0, jane)"
  "held (example_services\<lparr>request := \<lambda>k. request example_services (Suc 0 - k)\<rparr>) (Suc 0, alice)"
  by (simp_all add: held_def batch_eval)

theorem processBatch_order_of_results_witness:
  "map result_key (processBatch example_services [alice, jane] 0) = [input_key jane, input_key alice]
   \<and> map result_key
         (processBatch (example_services\<lparr>request := \<lambda>k. request example_services (Suc 0 - k)\<rparr>)
            [jane, alice] 0)
       = [input_key jane, input_key alice]
   \<and> map result_key
         (processBatch (example_services\<lparr>request := \<lambda>k url attempt. Rejected ''timeout''\<rparr>)
            [alice, jane] 0)
       = [input_key alice, input_key jane]"
proof -
  let ?dead = "example_services\<lparr>request := \<lambda>k url attempt. Rejected ''timeout''\<rparr>"
  let ?swapped = "example_services\<lparr>request := \<lambda>k. request example_services (Suc 0 - k)\<rparr>"
  have e: "enumerate 0 [alice, jane] = [(0, alice), (Suc 0, jane)]"
    by (simp add: enumerate_eq_zip upt_rec)
  have g: "(\<forall>p \<in> set (enumerate 0 [alice, jane]). held ?dead p)
      \<or> (\<forall>p \<in> set (enumerate 0 [alice, jane]). \<not> held ?dead p)"
    using example_not_held by (simp add: e)
  have s: "\<forall>i j. i < j \<and> j < length [jane, alice] \<and> held ?swapped (i, [jane, alice] ! i)
        \<longrightarrow> held ?swapped (j, [jane, alice] ! j)"
  proof (intro allI impI)
    fix i j :: nat
    assume "i < j \<and> j < length [jane, alice] \<and> held ?swapped (i, [jane, alice] ! i)"
    then have "j = Suc 0" by auto
    then show "held ?swapped (j, [jane, alice] ! j)" by (simp add: example_swapped)
  qed
  from processBatch_order_of_results [of example_services "[alice, jane]" 0]
  have "map result_key (processBatch example_services [alice, jane] 0)
      = [input_key jane, input_key alice]"
    by (simp add: e example_held)
  moreover from s processBatch_order_of_results [of ?swapped "[jane, alice]" 0]
  have "map result_key (processBatch ?swapped [jane, alice] 0) = map input_key [jane, alice]"
    by blast
  moreover from g processBatch_order_of_results [of ?dead "[alice, jane]" 0]
  have "map result_key (processBatch ?dead [alice, jane] 0) = map input_key [alice, jane]"
    by blast
  ultimately show ?thesis by simp
qed

text \<open>
  The claim as stated fails when a record that is fully processed precedes one that
  fails early: Alice Roe precedes Jane Doe in the batch, and Jane Doe's result precedes
  Alice Roe's.
\<close>

theorem processBatch_order_counterexample:
  "map (\<lambda>r. (name r, status r)) (processBatch example_services [alice, jane] 0)
     = [(''Jane Doe'', ''failed''), (''Alice Roe'', ''processed'')]
   \<and> map founderName [alice, jane] = [''Alice Roe'', ''Jane Doe'']"
  by (simp add: example_batch) (simp add: alice_def jane_def)

text \<open>
  Claim C10. Every profile object in the array \<open>getProfileDescription\<close> returns, on
  the success path and on every error path, has \<open>canDm = true\<close>; every result of a
  batch with status \<open>processed\<close> has \<open>dm_status = "open"\<close>; and no result has a
  \<open>dm_status\<close> other than \<open>open\<close>. (The first part is about the profile objects the
  function builds; an element of the array can also be a value that \<open>profileMap\<close>
  inherits, which is not one of them.)
\<close>

theorem canDm_always_true:
  "(\<forall>p. Profile p \<in> set (getProfileDescription w handles) \<longrightarrow> canDm p)
   \<and> (\<forall>r \<in> set (processBatch w batch b). status r = ''processed'' \<longrightarrow> dm_status r = Some ''open'')
   \<and> (\<forall>r \<in> set (processBatch w batch b). dm_status r = None \<or> dm_status r = Some ''open'')"
proof -
  have profiles: "\<forall>p. Profile p \<in> set (getProfileDescription w handles) \<longrightarrow> canDm p"
    by (simp add: getProfileDescription_canDm)
  have "((status r = ''failed'' \<or> status r = ''error'') \<and> dm_status r = None)
     \<or> (status r = ''processed'' \<and> dm_status r = Some ''open'')"
    if "r \<in> set (processBatch w batch b)" for r
    using that by (rule processBatch_statuses)
  then have "\<forall>r \<in> set (processBatch w batch b).
        (status r = ''processed'' \<longrightarrow> dm_status r = Some ''open'')
        \<and> (dm_status r = None \<or> dm_status r = Some ''open'')"
    by fastforce
  with profiles show ?thesis by blast
qed

theorem canDm_always_true_witness:
  "canDm \<lparr>p_status = ''success'', canDm = True, p_description = JStr ''Founder of Acme'',
            p_reason = ''DMs are open''\<rparr>
   \<and> canDm (api_error (Error ''503''))
   \<and> dm_status (processBatch example_services [alice, jane] 0 ! 1) = Some ''open''
   \<and> dm_status (processBatch example_services [alice, jane] 0 ! 0) = None"
proof -
  let ?down = "example_services\<lparr>axios_post := \<lambda>urls. AxiosRejected ''503''\<rparr>"
  let ?p = "\<lparr>p_status = ''success'', canDm = True, p_description = JStr ''Founder of Acme'',
            p_reason = ''DMs are open''\<rparr>"
  have a: "Profile ?p \<in> set (getProfileDescription example_services (Many [''alice'', ''bob'', ''constructor'']))"
    by (simp add: poller_eval)
  have b: "Profile (api_error (Error ''503'')) \<in> set (getProfileDescription ?down (Many [''alice'']))"
    by (simp add: getProfileDescription_def getProfileDescription_try_def example_services_def)
  have c: "processBatch example_services [alice, jane] 0 ! 1
        \<in> set (processBatch example_services [alice, jane] 0)"
    "status (processBatch example_services [alice, jane] 0 ! 1) = ''processed''"
    "processBatch example_services [alice, jane] 0 ! 0
        \<in> set (processBatch example_services [alice, jane] 0)"
    "dm_status (processBatch example_services [alice, jane] 0 ! 0) \<noteq> Some ''open''"
    by (simp_all add: example_batch)
  from a canDm_always_true [of example_services "Many [''alice'', ''bob'', ''constructor'']"]
  have "canDm ?p" by blast
  moreover from b canDm_always_true [of ?down "Many [''alice'']"]
  have "canDm (api_error (Error ''503''))" by blast
  moreover from c canDm_always_true [of example_services _ "[alice, jane]" 0]
  have "dm_status (processBatch example_services [alice, jane] 0 ! 1) = Some ''open''"
    "dm_status (processBatch example_services [alice, jane] 0 ! 0) = None"
    by blast+
  ultimately show ?thesis by blast
qed

end
